theory Spec2Isabelle
  imports Main "HOL-Library.Char_ord" "HOL-Library.List_Lexorder"
begin

section \<open>Data model (internal/models)\<close>

text \<open>
  Go strings are byte sequences: \<^typ>\<open>string\<close>. A \<open>*time.Time\<close> is an optional
  instant; instants are abstract ticks. Where several Go structs share a field name the
  Isabelle field carries a short prefix, since record fields are global constants.
\<close>

type_synonym time = nat

record PullRequest =
  AssignedReviewers :: "string list"
  AuthorId :: string
  CreatedAt :: "time option"
  MergedAt :: "time option"
  PullRequestId :: string
  PullRequestName :: string
  Status :: string

definition PullRequestStatusMERGED :: string where
  "PullRequestStatusMERGED = ''MERGED''"

definition PullRequestStatusOPEN :: string where
  "PullRequestStatusOPEN = ''OPEN''"

record PostPullRequestCreateJSONBody =
  req_AuthorId :: string
  req_PullRequestId :: string
  req_PullRequestName :: string

record User =
  IsActive :: bool
  TeamName :: string
  UserId :: string
  Username :: string

record TeamMember =
  tm_IsActive :: bool
  tm_UserId :: string
  tm_Username :: string

record Team =
  Members :: "TeamMember list"
  team_TeamName :: string

definition ConvertUserToTeamMember :: "User \<Rightarrow> TeamMember" where
  "ConvertUserToTeamMember user =
     \<lparr>tm_IsActive = IsActive user, tm_UserId = UserId user, tm_Username = Username user\<rparr>"

definition ConvertTmToUser :: "TeamMember \<Rightarrow> string \<Rightarrow> User" where
  "ConvertTmToUser tm teamName =
     \<lparr>IsActive = tm_IsActive tm, TeamName = teamName, UserId = tm_UserId tm,
      Username = tm_Username tm\<rparr>"

record ReviewerReplacement =
  rr_OldUserId :: string
  rr_NewUserId :: string

record TeamPRReassignment =
  ra_PullRequestId :: string
  Replacements :: "ReviewerReplacement list"

record TeamBulkDeactivateResult =
  res_TeamName :: string
  Deactivated :: "string list"
  Reassignments :: "TeamPRReassignment list"

record ReviewerSwap =
  sw_PullRequestId :: string
  sw_OldUserId :: string
  sw_NewUserId :: string

record ReassignResponse =
  PR :: PullRequest
  ReplacedBy :: string

section \<open>Errors (internal/domain/errors.go)\<close>

text \<open>
  The sentinel errors of the domain package, and error values as \<open>fmt.Errorf\<close> builds
  them: a format string with its operands, wrapping another error when the format
  contains \<open>%w\<close>. \<open>PgError\<close> stands for an error raised by the database itself
  (a violated constraint).
\<close>

datatype sentinel =
  ErrTeamExists | ErrPRExists | ErrPRMerged | ErrNotAssigned | ErrNoCandidate
  | ErrNotFound | ErrUnauthorized | ErrTeamIsEmty

datatype fmtarg = ArgS string | ArgN nat

datatype error =
  Sentinel sentinel
  | Errorf string "fmtarg list"
  | Wrapf string "fmtarg list" error
  | PgError string

fun errors_Is :: "error \<Rightarrow> sentinel \<Rightarrow> bool" where
  "errors_Is (Sentinel s) t = (s = t)"
| "errors_Is (Errorf f as) t = False"
| "errors_Is (Wrapf f as e) t = errors_Is e t"
| "errors_Is (PgError m) t = False"

definition NewTeamExistsError :: "string \<Rightarrow> error" where
  "NewTeamExistsError teamName =
     Wrapf ''%w: team %s already exists'' [ArgS teamName] (Sentinel ErrTeamExists)"

definition NewPRMergedError :: "string \<Rightarrow> error" where
  "NewPRMergedError prID =
     Wrapf ''%w: pull request %s is already merged'' [ArgS prID] (Sentinel ErrPRMerged)"

definition NewNotAssignedError :: "string \<Rightarrow> error" where
  "NewNotAssignedError prID =
     Wrapf ''%w: pull request %s is not assigned to reviewer'' [ArgS prID]
       (Sentinel ErrNotAssigned)"

definition NewNoCandidateError :: "string \<Rightarrow> error" where
  "NewNoCandidateError prID =
     Wrapf ''%w: no candidate reviewer available for pull request %s'' [ArgS prID]
       (Sentinel ErrNoCandidate)"

definition NewNotFoundError :: "string \<Rightarrow> error" where
  "NewNotFoundError resource =
     Wrapf ''%w: %s not found'' [ArgS resource] (Sentinel ErrNotFound)"

text \<open>
  \<open>mapDomainError\<close> (internal/web/server.go) is the one place where the program sorts
  errors into kinds: it returns the HTTP status and the error code of the response. The
  third result, the message \<open>err.Error()\<close>, is left out.
\<close>

definition mapDomainError :: "error option \<Rightarrow> nat \<times> string" where
  "mapDomainError err =
     (case err of
        None \<Rightarrow> (200, [])
      | Some e \<Rightarrow>
          if errors_Is e ErrTeamExists then (400, ''TEAM_EXISTS'')
          else if errors_Is e ErrPRExists then (409, ''PR_EXISTS'')
          else if errors_Is e ErrPRMerged then (409, ''PR_MERGED'')
          else if errors_Is e ErrNotAssigned then (409, ''NOT_ASSIGNED'')
          else if errors_Is e ErrNoCandidate then (409, ''NO_CANDIDATE'')
          else if errors_Is e ErrNotFound then (404, ''NOT_FOUND'')
          else if errors_Is e ErrUnauthorized then (401, ''UNAUTHORIZED'')
          else (500, ''INTERNAL_ERROR''))"

section \<open>strings.TrimSpace\<close>

text \<open>
  \<open>strings.TrimSpace\<close> removes every leading and trailing rune for which
  \<open>unicode.IsSpace\<close> holds. On the bytes of the string this is: strip, as long as possible,
  a prefix (then a suffix) that is the UTF-8 encoding of a white-space code point. The list
  holds those encodings: the six ASCII ones, U+0085, U+00A0, U+1680, U+2000 to U+200A,
  U+2028, U+2029, U+202F, U+205F and U+3000.
\<close>

definition unicode_spaces :: "string list" where
  "unicode_spaces =
    [[CHR 0x09], [CHR 0x0A], [CHR 0x0B], [CHR 0x0C], [CHR 0x0D], [CHR 0x20],
     [CHR 0xC2, CHR 0x85], [CHR 0xC2, CHR 0xA0],
     [CHR 0xE1, CHR 0x9A, CHR 0x80],
     [CHR 0xE2, CHR 0x80, CHR 0x80], [CHR 0xE2, CHR 0x80, CHR 0x81],
     [CHR 0xE2, CHR 0x80, CHR 0x82], [CHR 0xE2, CHR 0x80, CHR 0x83],
     [CHR 0xE2, CHR 0x80, CHR 0x84], [CHR 0xE2, CHR 0x80, CHR 0x85],
     [CHR 0xE2, CHR 0x80, CHR 0x86], [CHR 0xE2, CHR 0x80, CHR 0x87],
     [CHR 0xE2, CHR 0x80, CHR 0x88], [CHR 0xE2, CHR 0x80, CHR 0x89],
     [CHR 0xE2, CHR 0x80, CHR 0x8A],
     [CHR 0xE2, CHR 0x80, CHR 0xA8], [CHR 0xE2, CHR 0x80, CHR 0xA9],
     [CHR 0xE2, CHR 0x80, CHR 0xAF],
     [CHR 0xE2, CHR 0x81, CHR 0x9F],
     [CHR 0xE3, CHR 0x80, CHR 0x80]]"

definition starts_with :: "string \<Rightarrow> string \<Rightarrow> bool" where
  "starts_with s w = (w \<noteq> [] \<and> List.take (length w) s = w)"

function trim_prefixes :: "string list \<Rightarrow> string \<Rightarrow> string" where
  "trim_prefixes ws s =
     (case List.find (starts_with s) ws of
        None \<Rightarrow> s
      | Some w \<Rightarrow> trim_prefixes ws (drop (length w) s))"
  by pat_completeness auto
termination
proof (relation "measure (\<lambda>(ws, s). length s)")
  show "wf (measure (\<lambda>(ws, s). length s))" by simp
next
  fix ws :: "string list" and s w :: string
  assume "List.find (starts_with s) ws = Some w"
  then have "starts_with s w" by (auto simp: find_Some_iff)
  then have "w \<noteq> []" and "List.take (length w) s = w"
    by (simp_all add: starts_with_def)
  then have "s \<noteq> []" by auto
  with \<open>w \<noteq> []\<close> show "((ws, drop (length w) s), (ws, s)) \<in> measure (\<lambda>(ws, s). length s)"
    by simp
qed

definition TrimSpace :: "string \<Rightarrow> string" where
  "TrimSpace s =
     rev (trim_prefixes (map rev unicode_spaces) (rev (trim_prefixes unicode_spaces s)))"

section \<open>Bulk deactivation: target normalisation (service/pr_service.go)\<close>

text \<open>
  The loop of \<open>normalizeTargetUserIDs\<close>, with its two accumulators: the set of ids seen
  (\<open>targetSet\<close>, a Go \<open>map[string]struct{}\<close>) and the list built so far.
\<close>

fun normalize_loop :: "string list \<Rightarrow> string set \<Rightarrow> string list \<Rightarrow> string list \<times> string set" where
  "normalize_loop [] targetSet targets = (targets, targetSet)"
| "normalize_loop (raw # rest) targetSet targets =
     (let uid = TrimSpace raw in
      if uid = [] then normalize_loop rest targetSet targets
      else if uid \<in> targetSet then normalize_loop rest targetSet targets
      else normalize_loop rest (insert uid targetSet) (targets @ [uid]))"

definition normalizeTargetUserIDs :: "string list \<Rightarrow> error + (string list \<times> string set)" where
  "normalizeTargetUserIDs userIDs =
     (case normalize_loop userIDs {} [] of
        (targets, targetSet) \<Rightarrow>
          if length targets = 0 then Inl (Errorf ''no valid user ids provided'' [])
          else Inr (targets, targetSet))"

text \<open>
  The specification's reading of the same step: trim every id, drop the empty ones, keep
  the first occurrence of each.
\<close>

fun first_occurrences :: "'a list \<Rightarrow> 'a list" where
  "first_occurrences [] = []"
| "first_occurrences (x # xs) = x # first_occurrences (filter (\<lambda>y. y \<noteq> x) xs)"

definition normalized_targets :: "string list \<Rightarrow> string list" where
  "normalized_targets userIDs =
     first_occurrences (filter (\<lambda>uid. uid \<noteq> []) (map TrimSpace userIDs))"

section \<open>The reviewer pool (service/pr_service.go)\<close>

text \<open>
  \<open>reviewerPool\<close>: a queue of ids and the set of ids still available. The receiver of
  \<open>take\<close> and the pool handed to the planner is the pointer \<open>newReviewerPool\<close> returns,
  which is never nil; an exclusion map that is nil behaves as the empty set.
\<close>

record reviewerPool =
  queue :: "string list"
  available :: "string set"

fun newReviewerPool_loop :: "string list \<Rightarrow> string list \<Rightarrow> string set \<Rightarrow> reviewerPool" where
  "newReviewerPool_loop [] q av = \<lparr>queue = q, available = av\<rparr>"
| "newReviewerPool_loop (uid # ids) q av =
     (if uid = [] then newReviewerPool_loop ids q av
      else if uid \<in> av then newReviewerPool_loop ids q av
      else newReviewerPool_loop ids (q @ [uid]) (insert uid av))"

definition newReviewerPool :: "string list \<Rightarrow> reviewerPool" where
  "newReviewerPool ids = newReviewerPool_loop ids [] {}"

text \<open>
  The loop of \<open>take\<close>, by recursion on \<open>attempts\<close>: pop the head of the queue; drop it
  when it is no longer available; send it to the back when it is excluded; otherwise
  remove it from the available set and return it.
\<close>

fun take_loop :: "nat \<Rightarrow> reviewerPool \<Rightarrow> string set \<Rightarrow> (string \<times> bool) \<times> reviewerPool" where
  "take_loop 0 p exclude = (([], False), p)"
| "take_loop (Suc attempts) p exclude =
     (case queue p of
        [] \<Rightarrow> (([], False), p)
      | candidate # rest \<Rightarrow>
          if candidate \<notin> available p then take_loop attempts (p\<lparr>queue := rest\<rparr>) exclude
          else if candidate \<in> exclude
            then take_loop attempts (p\<lparr>queue := rest @ [candidate]\<rparr>) exclude
          else ((candidate, True),
                p\<lparr>queue := rest, available := available p - {candidate}\<rparr>))"

definition reviewerPool_take :: "reviewerPool \<Rightarrow> string set \<Rightarrow> (string \<times> bool) \<times> reviewerPool" where
  "reviewerPool_take p exclude =
     (if available p = {} then (([], False), p)
      else take_loop (length (queue p)) p exclude)"

text \<open>
  The pools the program builds: the queue has no repetition and lists exactly the
  available ids. Successive draws from one pool, one exclusion set per draw, collect the
  ids that were handed out.
\<close>

definition pool_wf :: "reviewerPool \<Rightarrow> bool" where
  "pool_wf p = (distinct (queue p) \<and> set (queue p) = available p)"

fun draws :: "reviewerPool \<Rightarrow> string set list \<Rightarrow> string list" where
  "draws p [] = []"
| "draws p (ex # exs) =
     (case reviewerPool_take p ex of
        ((c, ok), p') \<Rightarrow> (if ok then [c] else []) @ draws p' exs)"

section \<open>Repository interfaces (service package)\<close>

text \<open>
  The two services are written against interfaces. An implementation is a record of
  functions over its own state \<open>'s\<close>: a write returns the error (if any) and the new
  state, a read returns a value or an error. \<open>FindPullRequestsByReviewer\<close> and
  \<open>GetAssignmentStats\<close> serve the listing and statistics endpoints only and are left out.
\<close>

record 's UserTeamRepository =
  repo_SaveUser :: "User \<Rightarrow> 's \<Rightarrow> error option \<times> 's"
  repo_GetUser :: "string \<Rightarrow> 's \<Rightarrow> error + User"
  repo_GetAllUsersInTeam :: "string \<Rightarrow> 's \<Rightarrow> error + User list"
  repo_SaveTeam :: "Team \<Rightarrow> 's \<Rightarrow> error option \<times> 's"
  repo_GetTeam :: "string \<Rightarrow> 's \<Rightarrow> error + Team"
  repo_CreateTeamWithMembers :: "Team \<Rightarrow> User list \<Rightarrow> 's \<Rightarrow> error option \<times> 's"

record 's PullRequestRepository =
  repo_SavePullRequest :: "PullRequest \<Rightarrow> 's \<Rightarrow> error option \<times> 's"
  repo_GetPullRequest :: "string \<Rightarrow> 's \<Rightarrow> error + PullRequest"
  repo_FindOpenPullRequestsByReviewers :: "string list \<Rightarrow> 's \<Rightarrow> error + PullRequest list"
  repo_ApplyBulkTeamReviewerSwaps ::
    "ReviewerSwap list \<Rightarrow> string list \<Rightarrow> 's \<Rightarrow> error option \<times> 's"

section \<open>UserManager: the reviewer directory (service/user_service.go)\<close>

text \<open>
  The cache \<open>um.users\<close> is a Go map from user id to user. Go visits the keys of a map in
  an order of its own choosing; every function that ranges over the cache takes that order
  as its first argument \<open>ord\<close>, and \<open>key_order\<close> says that \<open>ord\<close> lists every key once.
  The mutex is not modelled: each operation runs alone.
\<close>

record 's UserManager =
  um_repo :: "'s UserTeamRepository option"
  users :: "string \<rightharpoonup> User"

definition NewUserManager :: "'s UserTeamRepository option \<Rightarrow> 's UserManager" where
  "NewUserManager r = \<lparr>um_repo = r, users = Map.empty\<rparr>"

definition key_order :: "string list \<Rightarrow> (string \<rightharpoonup> User) \<Rightarrow> bool" where
  "key_order ord m = (distinct ord \<and> set ord = dom m)"

definition range_users :: "string list \<Rightarrow> (string \<rightharpoonup> User) \<Rightarrow> User list" where
  "range_users ord m = List.map_filter m ord"

definition PrimeCacheUser :: "'s UserManager \<Rightarrow> string \<Rightarrow> 's \<Rightarrow> error option \<times> 's UserManager" where
  "PrimeCacheUser um userID s =
     (case um_repo um of
        None \<Rightarrow> (Some (Errorf ''repository is not configured'' []), um)
      | Some r \<Rightarrow>
          (case repo_GetUser r userID s of
             Inl err \<Rightarrow> (Some (Wrapf ''failed to get user %s: %w'' [ArgS userID] err), um)
           | Inr user \<Rightarrow> (None, um\<lparr>users := (users um)(UserId user \<mapsto> user)\<rparr>)))"

fun AssignRewiers_loop :: "string \<Rightarrow> User list \<Rightarrow> string list \<Rightarrow> nat \<Rightarrow> string list" where
  "AssignRewiers_loop teamId [] ans counter = ans"
| "AssignRewiers_loop teamId (user # rest) ans counter =
     (let (ans1, counter1) =
            (if TeamName user = teamId \<and> IsActive user
             then (ans @ [UserId user], counter + 1) else (ans, counter))
      in if counter1 = 2 then ans1 else AssignRewiers_loop teamId rest ans1 counter1)"

definition AssignRewiers :: "string list \<Rightarrow> 's UserManager \<Rightarrow> string \<Rightarrow> string list" where
  "AssignRewiers ord um teamId = AssignRewiers_loop teamId (range_users ord (users um)) [] 0"

fun set_active_loop :: "string list \<Rightarrow> bool \<Rightarrow> (string \<rightharpoonup> User) \<Rightarrow> (string \<rightharpoonup> User)" where
  "set_active_loop [] status m = m"
| "set_active_loop (el # rest) status m =
     (case m el of
        Some user \<Rightarrow> set_active_loop rest status (m(el \<mapsto> user\<lparr>IsActive := status\<rparr>))
      | None \<Rightarrow> set_active_loop rest status m)"

definition SetActivity :: "'s UserManager \<Rightarrow> string list \<Rightarrow> bool \<Rightarrow> error option \<times> 's UserManager" where
  "SetActivity um rewIds status = (None, um\<lparr>users := set_active_loop rewIds status (users um)\<rparr>)"

definition SyncUsersActivity :: "'s UserManager \<Rightarrow> string list \<Rightarrow> bool \<Rightarrow> 's UserManager" where
  "SyncUsersActivity um userIDs isActive =
     (if length userIDs = 0 then um
      else um\<lparr>users := set_active_loop userIDs isActive (users um)\<rparr>)"

fun AddTeam_validate :: "TeamMember list \<Rightarrow> nat \<Rightarrow> string set \<Rightarrow> error option" where
  "AddTeam_validate [] i userIDs = None"
| "AddTeam_validate (m # ms) i userIDs =
     (if tm_UserId m = []
        then Some (Errorf ''empty user_id found in team members at index %d'' [ArgN i])
      else if tm_UserId m \<in> userIDs
        then Some (Errorf (''duplicate user_id '' @ [CHR 0x27] @ ''%s'' @ [CHR 0x27]
                            @ '' found in team members at index %d'')
                     [ArgS (tm_UserId m), ArgN i])
      else AddTeam_validate ms (i + 1) (insert (tm_UserId m) userIDs))"

fun cache_users :: "User list \<Rightarrow> (string \<rightharpoonup> User) \<Rightarrow> (string \<rightharpoonup> User)" where
  "cache_users [] m = m"
| "cache_users (user # rest) m = cache_users rest (m(UserId user \<mapsto> user))"

definition AddTeam :: "'s UserManager \<Rightarrow> Team \<Rightarrow> 's \<Rightarrow> error option \<times> 's UserManager \<times> 's" where
  "AddTeam um team s =
     (case AddTeam_validate (Members team) 0 {} of
        Some err \<Rightarrow> (Some err, um, s)
      | None \<Rightarrow>
          (let us = map (\<lambda>m. ConvertTmToUser m (team_TeamName team)) (Members team) in
           case um_repo um of
             Some r \<Rightarrow>
               (case repo_CreateTeamWithMembers r team us s of
                  (Some err, s') \<Rightarrow>
                    (Some (Wrapf ''failed to persist team %s: %w'' [ArgS (team_TeamName team)] err),
                     um, s')
                | (None, s') \<Rightarrow> (None, um\<lparr>users := cache_users us (users um)\<rparr>, s'))
           | None \<Rightarrow> (None, um\<lparr>users := cache_users us (users um)\<rparr>, s)))"

definition GetTeam_from_cache :: "string list \<Rightarrow> 's UserManager \<Rightarrow> string \<Rightarrow> error + Team" where
  "GetTeam_from_cache ord um teamName =
     (let members = map ConvertUserToTeamMember
                      (filter (\<lambda>user. TeamName user = teamName) (range_users ord (users um)))
      in if length members = 0 then Inl (NewNotFoundError ''team'')
         else Inr \<lparr>Members = members, team_TeamName = teamName\<rparr>)"

definition GetTeam :: "string list \<Rightarrow> 's UserManager \<Rightarrow> string \<Rightarrow> 's \<Rightarrow> error + Team" where
  "GetTeam ord um teamName s =
     (case um_repo um of
        Some r \<Rightarrow>
          (case repo_GetTeam r teamName s of
             Inl err \<Rightarrow>
               if \<not> errors_Is err ErrNotFound
               then Inl (Wrapf ''failed to get team from repository: %w'' [] err)
               else GetTeam_from_cache ord um teamName
           | Inr team \<Rightarrow> Inr team)
      | None \<Rightarrow> GetTeam_from_cache ord um teamName)"

definition GetUserTeam :: "'s UserManager \<Rightarrow> string \<Rightarrow> 's \<Rightarrow> (error + string) \<times> 's UserManager" where
  "GetUserTeam um userID s =
     (case users um userID of
        Some user \<Rightarrow> (Inr (TeamName user), um)
      | None \<Rightarrow>
          (case um_repo um of
             None \<Rightarrow> (Inl (NewNotFoundError ''user''), um)
           | Some r \<Rightarrow>
               (case repo_GetUser r userID s of
                  Inl err \<Rightarrow>
                    if errors_Is err ErrNotFound then (Inl (NewNotFoundError ''user''), um)
                    else (Inl (Wrapf ''failed to get user from repository: %w'' [] err), um)
                | Inr user \<Rightarrow>
                    (Inr (TeamName user), um\<lparr>users := (users um)(UserId user \<mapsto> user)\<rparr>))))"

definition FindReplacementReviewer ::
  "string list \<Rightarrow> 's UserManager \<Rightarrow> string \<Rightarrow> string list \<Rightarrow> error + string" where
  "FindReplacementReviewer ord um teamName excludeUserIDs =
     (let excludeSet = set excludeUserIDs in
      case List.find (\<lambda>user. TeamName user = teamName \<and> IsActive user \<and> UserId user \<notin> excludeSet)
             (range_users ord (users um)) of
        Some user \<Rightarrow> Inr (UserId user)
      | None \<Rightarrow> Inl (Sentinel ErrNoCandidate))"

definition SetUserActivity ::
  "'s UserManager \<Rightarrow> string \<Rightarrow> bool \<Rightarrow> 's \<Rightarrow> (error + User) \<times> 's UserManager \<times> 's" where
  "SetUserActivity um userID isActive s =
     (case users um userID of
        None \<Rightarrow> (Inl (NewNotFoundError ''user''), um, s)
      | Some user0 \<Rightarrow>
          (let originalStatus = IsActive user0;
               user = user0\<lparr>IsActive := isActive\<rparr>;
               um1 = um\<lparr>users := (users um)(userID \<mapsto> user)\<rparr>
           in case um_repo um of
                Some r \<Rightarrow>
                  (case repo_SaveUser r user s of
                     (Some err, s') \<Rightarrow>
                       (Inl (Wrapf ''failed to save user: %w'' [] err),
                        um1\<lparr>users := (users um1)(userID \<mapsto> user\<lparr>IsActive := originalStatus\<rparr>)\<rparr>,
                        s')
                   | (None, s') \<Rightarrow> (Inr user, um1, s'))
              | None \<Rightarrow> (Inr user, um1, s)))"

section \<open>PullRequestManager (service/pr_service.go)\<close>

text \<open>
  The manager holds a pull-request repository and a \<open>UserService\<close>; the program wires the
  \<open>UserManager\<close> in as that service (cmd/main.go), and so does the model. An operation
  takes the directory and the repository state and returns them updated. A statement
  \<open>go prm.UserService.SetActivity(ids, status)\<close> starts a goroutine that the operation does
  not wait for: the operation returns the list of the tasks it started, and its returned
  directory is the one before any of them has run. \<open>time.Now()\<close> is the argument \<open>now\<close>.
\<close>

record 's PullRequestManager =
  prm_repo :: "'s PullRequestRepository"

datatype task = go_SetActivity "string list" bool

definition convertReqToModel :: "time \<Rightarrow> PostPullRequestCreateJSONBody \<Rightarrow> PullRequest" where
  "convertReqToModel now reqData =
     \<lparr>AssignedReviewers = [], AuthorId = req_AuthorId reqData, CreatedAt = Some now,
      MergedAt = None, PullRequestId = req_PullRequestId reqData,
      PullRequestName = req_PullRequestName reqData, Status = PullRequestStatusOPEN\<rparr>"

definition CreatePullRequest ::
  "time \<Rightarrow> string list \<Rightarrow> 's PullRequestManager \<Rightarrow> PostPullRequestCreateJSONBody \<Rightarrow>
   's UserManager \<times> 's \<Rightarrow> (error + PullRequest) \<times> task list \<times> 's UserManager \<times> 's" where
  "CreatePullRequest now ord prm reqData w =
     (case w of (um, s) \<Rightarrow>
        let pr0 = convertReqToModel now reqData in
        case GetUserTeam um (AuthorId pr0) s of
          (Inl err, um1) \<Rightarrow> (Inl (Wrapf ''failed to get author team: %w'' [] err), [], um1, s)
        | (Inr teamID, um1) \<Rightarrow>
            (let curAssignedReviewers = AssignRewiers ord um1 teamID;
                 pr = pr0\<lparr>AssignedReviewers := curAssignedReviewers\<rparr>;
                 started = [go_SetActivity curAssignedReviewers False]
             in case repo_SavePullRequest (prm_repo prm) pr s of
                  (Some err, s') \<Rightarrow> (Inl (Errorf ''couldn`t add pr to DB'' []), started, um1, s')
                | (None, s') \<Rightarrow> (Inr pr, started, um1, s')))"

definition Merge ::
  "time \<Rightarrow> 's PullRequestManager \<Rightarrow> string \<Rightarrow> 's UserManager \<times> 's \<Rightarrow>
   (error + PullRequest) \<times> task list \<times> 's UserManager \<times> 's" where
  "Merge now prm prId w =
     (case w of (um, s) \<Rightarrow>
        case repo_GetPullRequest (prm_repo prm) prId s of
          Inl err \<Rightarrow>
            if errors_Is err ErrNotFound then (Inl (NewNotFoundError ''pull request''), [], um, s)
            else (Inl (Wrapf ''failed to get pull request: %w'' [] err), [], um, s)
        | Inr pr0 \<Rightarrow>
            if Status pr0 = PullRequestStatusMERGED then (Inr pr0, [], um, s)
            else
              (let pr = pr0\<lparr>Status := PullRequestStatusMERGED, MergedAt := Some now\<rparr> in
               case repo_SavePullRequest (prm_repo prm) pr s of
                 (Some err, s') \<Rightarrow>
                   (Inl (Wrapf ''failed to save merged pull request: %w'' [] err), [], um, s')
               | (None, s') \<Rightarrow>
                   (Inr pr,
                    if length (AssignedReviewers pr) > 0
                    then [go_SetActivity (AssignedReviewers pr) True] else [],
                    um, s')))"

definition Reassign ::
  "string list \<Rightarrow> 's PullRequestManager \<Rightarrow> string \<Rightarrow> string \<Rightarrow> 's UserManager \<times> 's \<Rightarrow>
   (error + ReassignResponse) \<times> task list \<times> 's UserManager \<times> 's" where
  "Reassign ord prm oldUserId prId w =
     (case w of (um, s) \<Rightarrow>
        case repo_GetPullRequest (prm_repo prm) prId s of
          Inl err \<Rightarrow>
            if errors_Is err ErrNotFound then (Inl (NewNotFoundError ''pull request''), [], um, s)
            else (Inl (Wrapf ''failed to get pull request: %w'' [] err), [], um, s)
        | Inr pr0 \<Rightarrow>
            if Status pr0 = PullRequestStatusMERGED then (Inl (NewPRMergedError prId), [], um, s)
            else if oldUserId \<notin> set (AssignedReviewers pr0)
              then (Inl (NewNotAssignedError prId), [], um, s)
            else
              (case GetUserTeam um oldUserId s of
                 (Inl err, um1) \<Rightarrow>
                   (Inl (Wrapf ''failed to get user team: %w'' [] err), [], um1, s)
               | (Inr teamName, um1) \<Rightarrow>
                   (let excludeUserIDs = AssignedReviewers pr0 @ [oldUserId] in
                    case FindReplacementReviewer ord um1 teamName excludeUserIDs of
                      Inl err \<Rightarrow>
                        if errors_Is err ErrNoCandidate
                        then (Inl (NewNoCandidateError prId), [], um1, s)
                        else (Inl (Wrapf ''failed to find replacement reviewer: %w'' [] err),
                              [], um1, s)
                    | Inr newReviewerID \<Rightarrow>
                        (let newAssignedReviewers =
                               filter (\<lambda>reviewerID. reviewerID \<noteq> oldUserId) (AssignedReviewers pr0)
                                 @ [newReviewerID];
                             pr = pr0\<lparr>AssignedReviewers := newAssignedReviewers\<rparr>
                         in case repo_SavePullRequest (prm_repo prm) pr s of
                              (Some err, s') \<Rightarrow>
                                (Inl (Wrapf ''failed to save reassigned pull request: %w'' [] err),
                                 [], um1, s')
                            | (None, s') \<Rightarrow>
                                (Inr \<lparr>PR = pr, ReplacedBy = newReviewerID\<rparr>,
                                 [go_SetActivity [oldUserId] True,
                                  go_SetActivity [newReviewerID] False],
                                 um1, s')))))"

fun ensureTargetsInTeam_loop :: "string list \<Rightarrow> string set \<Rightarrow> error option" where
  "ensureTargetsInTeam_loop [] memberSet = None"
| "ensureTargetsInTeam_loop (uid # rest) memberSet =
     (if uid \<notin> memberSet then Some (NewNotFoundError (''user '' @ uid))
      else ensureTargetsInTeam_loop rest memberSet)"

definition ensureTargetsInTeam :: "string list \<Rightarrow> TeamMember list \<Rightarrow> error option" where
  "ensureTargetsInTeam targets members =
     ensureTargetsInTeam_loop targets (set (map tm_UserId members))"

fun collectReplacementCandidates :: "TeamMember list \<Rightarrow> string set \<Rightarrow> string list" where
  "collectReplacementCandidates [] targetSet = []"
| "collectReplacementCandidates (member # rest) targetSet =
     (if tm_UserId member \<in> targetSet then collectReplacementCandidates rest targetSet
      else if tm_IsActive member
        then tm_UserId member # collectReplacementCandidates rest targetSet
      else collectReplacementCandidates rest targetSet)"

text \<open>
  The planner. \<open>plan_reviewers\<close> is the inner loop over the reviewers of one pull request,
  \<open>plan_prs\<close> the outer loop over the open pull requests; both thread the pool and the
  lists built so far.
\<close>

fun plan_reviewers ::
  "string \<Rightarrow> string list \<Rightarrow> string set \<Rightarrow> reviewerPool \<Rightarrow> string set \<Rightarrow>
   ReviewerSwap list \<times> string list \<times> ReviewerReplacement list \<Rightarrow>
   error + (reviewerPool \<times> ReviewerSwap list \<times> string list \<times> ReviewerReplacement list)" where
  "plan_reviewers prId [] targetSet pool assigned acc = Inr (pool, acc)"
| "plan_reviewers prId (reviewer # rest) targetSet pool assigned acc =
     (if reviewer \<notin> targetSet then plan_reviewers prId rest targetSet pool assigned acc
      else
        (case reviewerPool_take pool assigned of
           ((newReviewer, ok), pool') \<Rightarrow>
             if \<not> ok then Inl (NewNoCandidateError prId)
             else
               (case acc of (swaps, replacementIDs, replacementsForPR) \<Rightarrow>
                  plan_reviewers prId rest targetSet pool' (insert newReviewer assigned)
                    (swaps @ [\<lparr>sw_PullRequestId = prId, sw_OldUserId = reviewer,
                               sw_NewUserId = newReviewer\<rparr>],
                     replacementIDs @ [newReviewer],
                     replacementsForPR @ [\<lparr>rr_OldUserId = reviewer,
                                           rr_NewUserId = newReviewer\<rparr>]))))"

fun plan_prs ::
  "PullRequest list \<Rightarrow> string set \<Rightarrow> reviewerPool \<Rightarrow>
   ReviewerSwap list \<times> TeamPRReassignment list \<times> string list \<Rightarrow>
   error + (ReviewerSwap list \<times> TeamPRReassignment list \<times> string list)" where
  "plan_prs [] targetSet pool acc = Inr acc"
| "plan_prs (pr # rest) targetSet pool acc =
     (case acc of (swaps, reassignments, replacementIDs) \<Rightarrow>
        case plan_reviewers (PullRequestId pr) (AssignedReviewers pr) targetSet pool
               (set (AssignedReviewers pr)) (swaps, replacementIDs, []) of
          Inl err \<Rightarrow> Inl err
        | Inr (pool', swaps', replacementIDs', replacementsForPR) \<Rightarrow>
            plan_prs rest targetSet pool'
              (swaps',
               if length replacementsForPR > 0
               then reassignments @ [\<lparr>ra_PullRequestId = PullRequestId pr,
                                       Replacements = replacementsForPR\<rparr>]
               else reassignments,
               replacementIDs'))"

definition planBulkReviewerSwaps ::
  "'s PullRequestManager \<Rightarrow> string list \<Rightarrow> string set \<Rightarrow> reviewerPool \<Rightarrow> 's \<Rightarrow>
   error + (ReviewerSwap list \<times> TeamPRReassignment list \<times> string list)" where
  "planBulkReviewerSwaps prm targets targetSet pool s =
     (case repo_FindOpenPullRequestsByReviewers (prm_repo prm) targets s of
        Inl err \<Rightarrow> Inl (Wrapf ''find open pull requests: %w'' [] err)
      | Inr openPRs \<Rightarrow> plan_prs openPRs targetSet pool ([], [], []))"

definition BulkDeactivateTeamMembers ::
  "string list \<Rightarrow> 's PullRequestManager \<Rightarrow> string \<Rightarrow> string list \<Rightarrow> 's UserManager \<times> 's \<Rightarrow>
   (error + TeamBulkDeactivateResult) \<times> 's UserManager \<times> 's" where
  "BulkDeactivateTeamMembers ord prm teamName0 userIDs w =
     (case w of (um, s) \<Rightarrow>
        let teamName = TrimSpace teamName0 in
        if teamName = [] then (Inl (Errorf ''team name is required'' []), um, s)
        else if length userIDs = 0 then (Inl (Errorf ''no user ids provided'' []), um, s)
        else
          (case normalizeTargetUserIDs userIDs of
             Inl err \<Rightarrow> (Inl err, um, s)
           | Inr (targets, targetSet) \<Rightarrow>
               (case GetTeam ord um teamName s of
                  Inl err \<Rightarrow> (Inl err, um, s)
                | Inr team \<Rightarrow>
                    (case ensureTargetsInTeam targets (Members team) of
                       Some err \<Rightarrow> (Inl err, um, s)
                     | None \<Rightarrow>
                         (let candidateIDs = collectReplacementCandidates (Members team) targetSet;
                              pool = newReviewerPool candidateIDs
                          in case planBulkReviewerSwaps prm targets targetSet pool s of
                               Inl err \<Rightarrow> (Inl err, um, s)
                             | Inr (swaps, reassignments, replacementIDs) \<Rightarrow>
                                 (let usersToDeactivate = targets @ replacementIDs in
                                  case repo_ApplyBulkTeamReviewerSwaps (prm_repo prm) swaps
                                         usersToDeactivate s of
                                    (Some err, s') \<Rightarrow>
                                      (Inl (Wrapf ''bulk reviewer swap: %w'' [] err), um, s')
                                  | (None, s') \<Rightarrow>
                                      (Inr \<lparr>res_TeamName = teamName, Deactivated = targets,
                                            Reassignments = reassignments\<rparr>,
                                       if length usersToDeactivate > 0
                                       then SyncUsersActivity um usersToDeactivate False else um,
                                       s')))))))"

section \<open>Storage: the PostgreSQL repository (internal/repository, migrations)\<close>

text \<open>
  The four tables of the schema, each a list of rows; the primary keys are \<open>team_name\<close>,
  \<open>user_id\<close>, \<open>pull_request_id\<close> and the pair \<open>(pull_request_id, user_id)\<close>. A statement
  that violates a primary or foreign key fails with a \<open>PgError\<close>; a method that fails
  rolls its transaction back, so it returns the state it was given. \<open>ORDER BY\<close> on a text
  column is the bytewise order. Failures of the connection itself are outside this model;
  the interface records above cover a repository that fails for any reason.
\<close>

record user_row =
  col_username :: string
  col_is_active :: bool
  col_team_name :: "string option"

record pr_row =
  col_pull_request_name :: string
  col_author_id :: string
  col_status :: string
  col_created_at :: "time option"
  col_merged_at :: "time option"

record Storage =
  teams :: "string list"
  users_tbl :: "(string \<times> user_row) list"
  pull_requests :: "(string \<times> pr_row) list"
  pull_request_reviewers :: "(string \<times> string) list"

definition empty_Storage :: Storage where
  "empty_Storage = \<lparr>teams = [], users_tbl = [], pull_requests = [], pull_request_reviewers = []\<rparr>"

fun upsert :: "'k \<Rightarrow> 'v \<Rightarrow> ('k \<times> 'v) list \<Rightarrow> ('k \<times> 'v) list" where
  "upsert k v [] = [(k, v)]"
| "upsert k v ((k', v') # rows) =
     (if k' = k then (k, v) # rows else (k', v') # upsert k v rows)"

definition NULLIF :: "string \<Rightarrow> string \<Rightarrow> string option" where
  "NULLIF a b = (if a = b then None else Some a)"

definition user_of_row :: "string \<times> user_row \<Rightarrow> User" where
  "user_of_row r =
     (case r of (uid, row) \<Rightarrow>
        \<lparr>IsActive = col_is_active row,
         TeamName = (case col_team_name row of None \<Rightarrow> [] | Some tn \<Rightarrow> tn),
         UserId = uid, Username = col_username row\<rparr>)"

definition row_of_user :: "User \<Rightarrow> user_row" where
  "row_of_user user =
     \<lparr>col_username = Username user, col_is_active = IsActive user,
      col_team_name = NULLIF (TeamName user) []\<rparr>"

definition upsert_user_row :: "User \<Rightarrow> Storage \<Rightarrow> error + Storage" where
  "upsert_user_row user st =
     (case col_team_name (row_of_user user) of
        None \<Rightarrow> Inr (st\<lparr>users_tbl := upsert (UserId user) (row_of_user user) (users_tbl st)\<rparr>)
      | Some tn \<Rightarrow>
          if tn \<notin> set (teams st) then Inl (PgError ''users_team_name_fkey'')
          else Inr (st\<lparr>users_tbl := upsert (UserId user) (row_of_user user) (users_tbl st)\<rparr>))"

definition Storage_SaveUser :: "User \<Rightarrow> Storage \<Rightarrow> error option \<times> Storage" where
  "Storage_SaveUser user st =
     (case upsert_user_row user st of
        Inl err \<Rightarrow> (Some (Wrapf ''upsert user: %w'' [] err), st)
      | Inr st' \<Rightarrow> (None, st'))"

definition Storage_GetUser :: "string \<Rightarrow> Storage \<Rightarrow> error + User" where
  "Storage_GetUser userID st =
     (case map_of (users_tbl st) userID of
        None \<Rightarrow> Inl (NewNotFoundError (''user '' @ userID))
      | Some row \<Rightarrow> Inr (user_of_row (userID, row)))"

definition Storage_GetAllUsersInTeam :: "string \<Rightarrow> Storage \<Rightarrow> error + User list" where
  "Storage_GetAllUsersInTeam teamId st =
     Inr (map user_of_row
            (sort_key (\<lambda>r. col_username (snd r))
               (filter (\<lambda>r. col_team_name (snd r) = Some teamId) (users_tbl st))))"

definition Storage_SaveTeam :: "Team \<Rightarrow> Storage \<Rightarrow> error option \<times> Storage" where
  "Storage_SaveTeam team st =
     (if team_TeamName team \<in> set (teams st)
      then (Some (NewTeamExistsError (team_TeamName team)), st)
      else (None, st\<lparr>teams := teams st @ [team_TeamName team]\<rparr>))"

fun upsert_users :: "User list \<Rightarrow> Storage \<Rightarrow> error + Storage" where
  "upsert_users [] st = Inr st"
| "upsert_users (user # rest) st =
     (case upsert_user_row user st of
        Inl err \<Rightarrow> Inl (Wrapf ''upsert user %s: %w'' [ArgS (UserId user)] err)
      | Inr st' \<Rightarrow> upsert_users rest st')"

definition Storage_CreateTeamWithMembers ::
  "Team \<Rightarrow> User list \<Rightarrow> Storage \<Rightarrow> error option \<times> Storage" where
  "Storage_CreateTeamWithMembers team us st =
     (if team_TeamName team \<in> set (teams st)
      then (Some (NewTeamExistsError (team_TeamName team)), st)
      else
        (case upsert_users us (st\<lparr>teams := teams st @ [team_TeamName team]\<rparr>) of
           Inl err \<Rightarrow> (Some err, st)
         | Inr st' \<Rightarrow> (None, st')))"

definition convertUserToTeamMember :: "User \<Rightarrow> TeamMember" where
  "convertUserToTeamMember u =
     \<lparr>tm_IsActive = IsActive u, tm_UserId = UserId u, tm_Username = Username u\<rparr>"

definition Storage_GetTeam :: "string \<Rightarrow> Storage \<Rightarrow> error + Team" where
  "Storage_GetTeam teamID st =
     (if teamID \<notin> set (teams st) then Inl (NewNotFoundError (''team '' @ teamID))
      else
        (case Storage_GetAllUsersInTeam teamID st of
           Inl err \<Rightarrow> Inl (Wrapf ''get members for team %s: %w'' [ArgS teamID] err)
         | Inr us \<Rightarrow> Inr \<lparr>Members = map convertUserToTeamMember us, team_TeamName = teamID\<rparr>))"

definition reviewers_of :: "Storage \<Rightarrow> string \<Rightarrow> string list" where
  "reviewers_of st prID =
     map snd (filter (\<lambda>r. fst r = prID) (pull_request_reviewers st))"

definition insert_reviewer_row :: "string \<times> string \<Rightarrow> Storage \<Rightarrow> error + Storage" where
  "insert_reviewer_row r st =
     (if fst r \<notin> fst ` set (pull_requests st)
        then Inl (PgError ''pull_request_reviewers_pull_request_id_fkey'')
      else if snd r \<notin> fst ` set (users_tbl st)
        then Inl (PgError ''pull_request_reviewers_user_id_fkey'')
      else if r \<in> set (pull_request_reviewers st)
        then Inl (PgError ''pull_request_reviewers_pkey'')
      else Inr (st\<lparr>pull_request_reviewers := pull_request_reviewers st @ [r]\<rparr>))"

fun insert_reviewers :: "string \<Rightarrow> string list \<Rightarrow> string set \<Rightarrow> Storage \<Rightarrow> error + Storage" where
  "insert_reviewers prID [] seen st = Inr st"
| "insert_reviewers prID (r # rest) seen st =
     (if r = [] then insert_reviewers prID rest seen st
      else if r \<in> seen then insert_reviewers prID rest seen st
      else
        (case insert_reviewer_row (prID, r) st of
           Inl err \<Rightarrow> Inl (Wrapf ''insert pull_request_reviewer (%s): %w'' [ArgS r] err)
         | Inr st' \<Rightarrow> insert_reviewers prID rest (insert r seen) st'))"

definition Storage_SavePullRequest :: "PullRequest \<Rightarrow> Storage \<Rightarrow> error option \<times> Storage" where
  "Storage_SavePullRequest pr st =
     (if length (AssignedReviewers pr) > 2
        then (Some (Errorf ''assigned reviewers count must be <= 2'' []), st)
      else if AuthorId pr \<notin> fst ` set (users_tbl st)
        then (Some (Wrapf ''upsert pull_requests: %w'' [] (PgError ''pull_requests_author_id_fkey'')),
              st)
      else
        (let st1 = st\<lparr>pull_requests :=
                         upsert (PullRequestId pr)
                           \<lparr>col_pull_request_name = PullRequestName pr,
                            col_author_id = AuthorId pr, col_status = Status pr,
                            col_created_at = CreatedAt pr, col_merged_at = MergedAt pr\<rparr>
                           (pull_requests st)\<rparr>;
             st2 = st1\<lparr>pull_request_reviewers :=
                          filter (\<lambda>r. fst r \<noteq> PullRequestId pr) (pull_request_reviewers st1)\<rparr>
         in case insert_reviewers (PullRequestId pr) (AssignedReviewers pr) {} st2 of
              Inl err \<Rightarrow> (Some err, st)
            | Inr st3 \<Rightarrow> (None, st3)))"

definition pr_of_row :: "Storage \<Rightarrow> string \<times> pr_row \<Rightarrow> PullRequest" where
  "pr_of_row st r =
     (case r of (prID, row) \<Rightarrow>
        \<lparr>AssignedReviewers = sort (reviewers_of st prID), AuthorId = col_author_id row,
         CreatedAt = col_created_at row, MergedAt = col_merged_at row, PullRequestId = prID,
         PullRequestName = col_pull_request_name row, Status = col_status row\<rparr>)"

definition Storage_GetPullRequest :: "string \<Rightarrow> Storage \<Rightarrow> error + PullRequest" where
  "Storage_GetPullRequest prID st =
     (case map_of (pull_requests st) prID of
        None \<Rightarrow> Inl (NewNotFoundError (''pull request '' @ prID))
      | Some row \<Rightarrow> Inr (pr_of_row st (prID, row)))"

definition order_by_created_at_desc :: "PullRequest list \<Rightarrow> PullRequest list" where
  "order_by_created_at_desc prs =
     sort_key (\<lambda>pr. - int (the (CreatedAt pr))) (filter (\<lambda>pr. CreatedAt pr \<noteq> None) prs)
       @ filter (\<lambda>pr. CreatedAt pr = None) prs"

definition Storage_FindOpenPullRequestsByReviewers ::
  "string list \<Rightarrow> Storage \<Rightarrow> error + PullRequest list" where
  "Storage_FindOpenPullRequestsByReviewers reviewerIDs st =
     (if length reviewerIDs = 0 then Inr []
      else
        (let unique = set (filter (\<lambda>uid. uid \<noteq> []) reviewerIDs) in
         if unique = {} then Inr []
         else Inr (order_by_created_at_desc
                     (map (pr_of_row st)
                        (filter (\<lambda>r. col_status (snd r) = ''OPEN''
                                      \<and> set (reviewers_of st (fst r)) \<inter> unique \<noteq> {})
                           (pull_requests st))))))"

fun applyReviewerSwapsTx :: "ReviewerSwap list \<Rightarrow> Storage \<Rightarrow> error + Storage" where
  "applyReviewerSwapsTx [] st = Inr st"
| "applyReviewerSwapsTx (swap # rest) st =
     (if sw_PullRequestId swap = [] \<or> sw_OldUserId swap = [] \<or> sw_NewUserId swap = []
        then Inl (Errorf ''invalid reviewer swap payload: %+v''
                    [ArgS (sw_PullRequestId swap), ArgS (sw_OldUserId swap),
                     ArgS (sw_NewUserId swap)])
      else
        (let st1 = st\<lparr>pull_request_reviewers :=
                         filter (\<lambda>r. r \<noteq> (sw_PullRequestId swap, sw_OldUserId swap))
                           (pull_request_reviewers st)\<rparr>
         in case insert_reviewer_row (sw_PullRequestId swap, sw_NewUserId swap) st1 of
              Inl err \<Rightarrow>
                Inl (Wrapf ''insert reviewer %s for pr %s: %w''
                       [ArgS (sw_NewUserId swap), ArgS (sw_PullRequestId swap)] err)
            | Inr st2 \<Rightarrow> applyReviewerSwapsTx rest st2))"

definition deactivateUsersTx :: "string list \<Rightarrow> Storage \<Rightarrow> error + Storage" where
  "deactivateUsersTx us st =
     (let uniq = set (filter (\<lambda>uid. uid \<noteq> []) us) in
      if uniq = {} then Inr st
      else Inr (st\<lparr>users_tbl :=
                     map (\<lambda>r. if fst r \<in> uniq then (fst r, (snd r)\<lparr>col_is_active := False\<rparr>) else r)
                       (users_tbl st)\<rparr>))"

definition Storage_ApplyBulkTeamReviewerSwaps ::
  "ReviewerSwap list \<Rightarrow> string list \<Rightarrow> Storage \<Rightarrow> error option \<times> Storage" where
  "Storage_ApplyBulkTeamReviewerSwaps swaps usersToDeactivate st =
     (if length swaps = 0 \<and> length usersToDeactivate = 0 then (None, st)
      else
        (case (if length swaps > 0 then applyReviewerSwapsTx swaps st else Inr st) of
           Inl err \<Rightarrow> (Some err, st)
         | Inr st1 \<Rightarrow>
             (case (if length usersToDeactivate > 0 then deactivateUsersTx usersToDeactivate st1
                    else Inr st1) of
                Inl err \<Rightarrow> (Some err, st)
              | Inr st2 \<Rightarrow> (None, st2))))"

text \<open>The program passes one \<open>Storage\<close> to both services (cmd/main.go).\<close>

definition Storage_users :: "Storage UserTeamRepository" where
  "Storage_users =
     \<lparr>repo_SaveUser = Storage_SaveUser, repo_GetUser = Storage_GetUser,
      repo_GetAllUsersInTeam = Storage_GetAllUsersInTeam, repo_SaveTeam = Storage_SaveTeam,
      repo_GetTeam = Storage_GetTeam,
      repo_CreateTeamWithMembers = Storage_CreateTeamWithMembers\<rparr>"

definition Storage_prs :: "Storage PullRequestRepository" where
  "Storage_prs =
     \<lparr>repo_SavePullRequest = Storage_SavePullRequest,
      repo_GetPullRequest = Storage_GetPullRequest,
      repo_FindOpenPullRequestsByReviewers = Storage_FindOpenPullRequestsByReviewers,
      repo_ApplyBulkTeamReviewerSwaps = Storage_ApplyBulkTeamReviewerSwaps\<rparr>"

definition prManager :: "Storage PullRequestManager" where
  "prManager = \<lparr>prm_repo = Storage_prs\<rparr>"

section \<open>Invariants\<close>

text \<open>
  \<open>cache_inv\<close>: every cache entry is filed under its own user id (each write to the cache
  is \<open>um.users[user.UserId] = user\<close>). \<open>store_wf\<close>: the primary keys hold. \<open>team_fk\<close>: the
  foreign key from users to teams holds. \<open>at_most_two\<close>: no pull request has more than two
  reviewer rows.
\<close>

definition cache_inv :: "(string \<rightharpoonup> User) \<Rightarrow> bool" where
  "cache_inv m = (\<forall>k u. m k = Some u \<longrightarrow> UserId u = k)"

definition store_wf :: "Storage \<Rightarrow> bool" where
  "store_wf st =
     (distinct (map fst (users_tbl st)) \<and> distinct (map fst (pull_requests st))
      \<and> distinct (pull_request_reviewers st))"

definition team_fk :: "Storage \<Rightarrow> bool" where
  "team_fk st =
     (\<forall>r \<in> set (users_tbl st). \<forall>tn. col_team_name (snd r) = Some tn \<longrightarrow> tn \<in> set (teams st))"

definition at_most_two :: "Storage \<Rightarrow> bool" where
  "at_most_two st =
     (\<forall>r \<in> set (pull_request_reviewers st). length (reviewers_of st (fst r)) \<le> 2)"

text \<open>
  The candidates the planner has left after the draws recorded in \<open>swaps\<close>, and the
  condition under which a pull request cannot be served: it has more targeted reviewers
  than there are candidates left that do not review it already.
\<close>

definition remaining_candidates :: "string list \<Rightarrow> ReviewerSwap list \<Rightarrow> string set" where
  "remaining_candidates cands swaps = set cands - {[]} - set (map sw_NewUserId swaps)"

definition short_of_candidates ::
  "string set \<Rightarrow> string list \<Rightarrow> ReviewerSwap list \<Rightarrow> PullRequest \<Rightarrow> bool" where
  "short_of_candidates targetSet cands swaps pr =
     (card (remaining_candidates cands swaps - set (AssignedReviewers pr))
        < length (filter (\<lambda>r. r \<in> targetSet) (AssignedReviewers pr)))"


text \<open>
  Reading a report back: the replacement a swap stands for, and the swaps that one entry
  of the report stands for.
\<close>

definition replacement_of_swap :: "ReviewerSwap \<Rightarrow> ReviewerReplacement" where
  "replacement_of_swap sw = \<lparr>rr_OldUserId = sw_OldUserId sw, rr_NewUserId = sw_NewUserId sw\<rparr>"

definition swaps_of_reassignment :: "TeamPRReassignment \<Rightarrow> ReviewerSwap list" where
  "swaps_of_reassignment ra =
     map (\<lambda>r. \<lparr>sw_PullRequestId = ra_PullRequestId ra, sw_OldUserId = rr_OldUserId r,
               sw_NewUserId = rr_NewUserId r\<rparr>) (Replacements ra)"

definition targeted_slots :: "string set \<Rightarrow> PullRequest list \<Rightarrow> (string \<times> string) list" where
  "targeted_slots T prs =
     concat (map (\<lambda>pr. map (Pair (PullRequestId pr))
                         (filter (\<lambda>r. r \<in> T) (AssignedReviewers pr))) prs)"

section \<open>Example data\<close>

text \<open>
  A small database and directory, after the service tests: team \<open>backend\<close> with \<open>u1\<close> and
  \<open>u2\<close> active and \<open>u4\<close> inactive, and the open pull request \<open>pr-1\<close> reviewed by \<open>u1\<close>
  and \<open>u4\<close>.
\<close>

definition ex_store :: Storage where
  "ex_store =
     \<lparr>teams = [''backend''],
      users_tbl =
        [(''u1'', \<lparr>col_username = ''Ann'', col_is_active = True,
                   col_team_name = Some ''backend''\<rparr>),
         (''u2'', \<lparr>col_username = ''Bob'', col_is_active = True,
                   col_team_name = Some ''backend''\<rparr>),
         (''u4'', \<lparr>col_username = ''Dan'', col_is_active = False,
                   col_team_name = Some ''backend''\<rparr>)],
      pull_requests =
        [(''pr-1'', \<lparr>col_pull_request_name = ''Fix'', col_author_id = ''u2'',
                     col_status = ''OPEN'', col_created_at = Some 1, col_merged_at = None\<rparr>)],
      pull_request_reviewers = [(''pr-1'', ''u1''), (''pr-1'', ''u4'')]\<rparr>"

definition ex_cache :: "string \<rightharpoonup> User" where
  "ex_cache =
     [''u1'' \<mapsto> \<lparr>IsActive = True, TeamName = ''backend'', UserId = ''u1'', Username = ''Ann''\<rparr>,
      ''u2'' \<mapsto> \<lparr>IsActive = True, TeamName = ''backend'', UserId = ''u2'', Username = ''Bob''\<rparr>,
      ''u4'' \<mapsto> \<lparr>IsActive = False, TeamName = ''backend'', UserId = ''u4'', Username = ''Dan''\<rparr>]"

definition ex_um :: "Storage UserManager" where
  "ex_um = \<lparr>um_repo = Some Storage_users, users = ex_cache\<rparr>"

definition ex_ord :: "string list" where
  "ex_ord = [''u1'', ''u2'', ''u4'']"

text \<open>
  A second database: team \<open>core\<close> with \<open>c1\<close> and \<open>c2\<close> active and \<open>c3\<close> inactive, and two
  open pull requests, \<open>qa\<close> (the newer) reviewed by \<open>c1\<close> and \<open>qb\<close> reviewed by \<open>c1\<close> and
  \<open>c2\<close>.
\<close>

definition ex_store2 :: Storage where
  "ex_store2 =
     \<lparr>teams = [''core''],
      users_tbl =
        [(''c1'', \<lparr>col_username = ''Cy'', col_is_active = True,
                   col_team_name = Some ''core''\<rparr>),
         (''c2'', \<lparr>col_username = ''Di'', col_is_active = True,
                   col_team_name = Some ''core''\<rparr>),
         (''c3'', \<lparr>col_username = ''Ed'', col_is_active = False,
                   col_team_name = Some ''core''\<rparr>)],
      pull_requests =
        [(''qa'', \<lparr>col_pull_request_name = ''A'', col_author_id = ''c3'',
                   col_status = ''OPEN'', col_created_at = Some 2, col_merged_at = None\<rparr>),
         (''qb'', \<lparr>col_pull_request_name = ''B'', col_author_id = ''c3'',
                   col_status = ''OPEN'', col_created_at = Some 1, col_merged_at = None\<rparr>)],
      pull_request_reviewers = [(''qa'', ''c1''), (''qb'', ''c1''), (''qb'', ''c2'')]\<rparr>"

section \<open>Properties of the target normalisation\<close>

lemma normalize_loop_eq:
  "normalize_loop ids S acc =
     (acc @ first_occurrences (filter (\<lambda>u. u \<noteq> [] \<and> u \<notin> S) (map TrimSpace ids)),
      S \<union> set (first_occurrences (filter (\<lambda>u. u \<noteq> [] \<and> u \<notin> S) (map TrimSpace ids))))"
proof (induction ids arbitrary: S acc)
  case Nil
  then show ?case by simp
next
  case (Cons raw rest)
  show ?case
  proof (cases "TrimSpace raw = [] \<or> TrimSpace raw \<in> S")
    case True
    then show ?thesis using Cons.IH [of S acc] by (auto simp: Let_def)
  next
    case False
    have "(\<lambda>u. u \<noteq> [] \<and> u \<noteq> TrimSpace raw \<and> u \<notin> S) =
          (\<lambda>u. u \<noteq> [] \<and> u \<notin> S \<and> u \<noteq> TrimSpace raw)"
      by auto
    with False show ?thesis
      using Cons.IH [of "insert (TrimSpace raw) S" "acc @ [TrimSpace raw]"]
      by (simp add: Let_def)
  qed
qed

lemma set_first_occurrences: "set (first_occurrences xs) = set xs"
proof (induction xs rule: first_occurrences.induct)
  case 1
  then show ?case by simp
next
  case (2 x xs)
  then show ?case by auto
qed

lemma distinct_first_occurrences: "distinct (first_occurrences xs)"
proof (induction xs rule: first_occurrences.induct)
  case 1
  then show ?case by simp
next
  case (2 x xs)
  then show ?case by (simp add: set_first_occurrences)
qed

lemma remdups_snoc: "remdups (ys @ [x]) = filter (\<lambda>y. y \<noteq> x) (remdups ys) @ [x]"
  by (induction ys) auto

lemma first_occurrences_remdups: "first_occurrences xs = rev (remdups (rev xs))"
proof (induction xs rule: first_occurrences.induct)
  case 1
  then show ?case by simp
next
  case (2 x xs)
  then show ?case by (simp add: remdups_snoc rev_filter remdups_filter)
qed

lemma normalizeTargetUserIDs_eq:
  "normalizeTargetUserIDs userIDs =
     (if normalized_targets userIDs = [] then Inl (Errorf ''no valid user ids provided'' [])
      else Inr (normalized_targets userIDs, set (normalized_targets userIDs)))"
  by (simp add: normalizeTargetUserIDs_def normalized_targets_def normalize_loop_eq)

section \<open>Properties of the reviewer pool\<close>

lemma newReviewerPool_loop_wf:
  "distinct q \<Longrightarrow> set q = av \<Longrightarrow>
   pool_wf (newReviewerPool_loop ids q av) \<and>
   available (newReviewerPool_loop ids q av) = av \<union> (set ids - {[]})"
  by (induction ids q av rule: newReviewerPool_loop.induct) (auto simp: pool_wf_def)

lemma newReviewerPool_wf: "pool_wf (newReviewerPool ids)"
  using newReviewerPool_loop_wf [of "[]" "{}" ids] by (simp add: newReviewerPool_def)

lemma newReviewerPool_available: "available (newReviewerPool ids) = set ids - {[]}"
  using newReviewerPool_loop_wf [of "[]" "{}" ids] by (simp add: newReviewerPool_def)

lemma take_loop_hit:
  "set (queue p) \<subseteq> available p \<Longrightarrow> queue p = pre @ c # post \<Longrightarrow> set pre \<subseteq> ex \<Longrightarrow>
   c \<notin> ex \<Longrightarrow> length pre < n \<Longrightarrow>
   take_loop n p ex = ((c, True), p\<lparr>queue := post @ pre, available := available p - {c}\<rparr>)"
proof (induction pre arbitrary: p n post)
  case Nil
  then obtain m where "n = Suc m" by (cases n) auto
  with Nil show ?case by simp
next
  case (Cons x pre)
  then obtain m where n: "n = Suc m" by (cases n) auto
  let ?p = "p\<lparr>queue := (pre @ c # post) @ [x]\<rparr>"
  have "take_loop m ?p ex =
        ((c, True), ?p\<lparr>queue := (post @ [x]) @ pre, available := available ?p - {c}\<rparr>)"
    using Cons.prems n by (intro Cons.IH) auto
  with Cons.prems n show ?case by simp
qed

lemma take_loop_miss:
  "set (queue p) \<subseteq> available p \<Longrightarrow> queue p = pre @ post \<Longrightarrow> set pre \<subseteq> ex \<Longrightarrow>
   length pre = n \<Longrightarrow>
   take_loop n p ex = (([], False), p\<lparr>queue := post @ pre\<rparr>)"
proof (induction pre arbitrary: p n post)
  case Nil
  then show ?case by simp
next
  case (Cons x pre)
  then obtain m where n: "n = Suc m" by (cases n) auto
  let ?p = "p\<lparr>queue := (pre @ post) @ [x]\<rparr>"
  have "take_loop m ?p ex = (([], False), ?p\<lparr>queue := (post @ [x]) @ pre\<rparr>)"
    using Cons.prems n by (intro Cons.IH) auto
  with Cons.prems n show ?case by simp
qed

lemma reviewerPool_take_closed:
  assumes "pool_wf p"
  shows "reviewerPool_take p ex =
     (case dropWhile (\<lambda>c. c \<in> ex) (queue p) of
        [] \<Rightarrow> (([], False), p)
      | c # post \<Rightarrow>
          ((c, True), \<lparr>queue = post @ takeWhile (\<lambda>c. c \<in> ex) (queue p),
                       available = available p - {c}\<rparr>))"
proof (cases "dropWhile (\<lambda>c. c \<in> ex) (queue p)")
  case Nil
  then have all: "set (queue p) \<subseteq> ex" by (auto simp: dropWhile_eq_Nil_conv)
  have "take_loop (length (queue p)) p ex = (([], False), p\<lparr>queue := [] @ queue p\<rparr>)"
    using assms all by (intro take_loop_miss) (auto simp: pool_wf_def)
  then show ?thesis unfolding Nil by (simp add: reviewerPool_take_def)
next
  case (Cons c post)
  let ?pre = "takeWhile (\<lambda>c. c \<in> ex) (queue p)"
  have q: "queue p = ?pre @ c # post"
    using Cons takeWhile_dropWhile_id [of "\<lambda>c. c \<in> ex" "queue p"] by simp
  have c: "c \<notin> ex" using Cons hd_dropWhile [of "\<lambda>c. c \<in> ex" "queue p"] by auto
  have pre: "set ?pre \<subseteq> ex" by (auto dest: set_takeWhileD)
  have len: "length ?pre < length (queue p)"
    using arg_cong [OF q, of length] by simp
  have ne: "available p \<noteq> {}" using assms q by (auto simp: pool_wf_def)
  have "take_loop (length (queue p)) p ex =
        ((c, True), p\<lparr>queue := post @ ?pre, available := available p - {c}\<rparr>)"
    using assms q pre c len by (intro take_loop_hit) (auto simp: pool_wf_def)
  with ne show ?thesis unfolding Cons by (simp add: reviewerPool_take_def)
qed

lemma reviewerPool_take_alt:
  assumes "pool_wf p"
  shows "(available p \<subseteq> ex \<and> reviewerPool_take p ex = (([], False), p))
       \<or> (\<exists>c pre post. queue p = pre @ c # post \<and> set pre \<subseteq> ex \<and> c \<notin> ex
             \<and> reviewerPool_take p ex =
                 ((c, True), \<lparr>queue = post @ pre, available = available p - {c}\<rparr>))"
proof (cases "dropWhile (\<lambda>c. c \<in> ex) (queue p)")
  case Nil
  then have "set (queue p) \<subseteq> ex" by (auto simp: dropWhile_eq_Nil_conv)
  moreover have "reviewerPool_take p ex = (([], False), p)"
    unfolding reviewerPool_take_closed [OF assms] Nil by simp
  ultimately show ?thesis using assms by (auto simp: pool_wf_def)
next
  case (Cons c post)
  let ?pre = "takeWhile (\<lambda>c. c \<in> ex) (queue p)"
  have q: "queue p = ?pre @ c # post"
    using Cons takeWhile_dropWhile_id [of "\<lambda>c. c \<in> ex" "queue p"] by simp
  have c: "c \<notin> ex" using Cons hd_dropWhile [of "\<lambda>c. c \<in> ex" "queue p"] by auto
  have pre: "set ?pre \<subseteq> ex" by (auto dest: set_takeWhileD)
  have "reviewerPool_take p ex =
        ((c, True), \<lparr>queue = post @ ?pre, available = available p - {c}\<rparr>)"
    unfolding reviewerPool_take_closed [OF assms] Cons by simp
  with q c pre show ?thesis by blast
qed

section \<open>Properties of the planner\<close>

lemma plan_reviewers_Inl:
  "plan_reviewers prId rs T pool assigned acc = Inl err \<Longrightarrow> err = NewNoCandidateError prId"
proof (induction rs arbitrary: pool assigned acc)
  case Nil
  then show ?case by simp
next
  case (Cons r rs)
  then show ?case
    by (auto split: if_splits prod.splits)
qed

lemma plan_prs_Inl:
  "plan_prs prs T pool acc = Inl err \<Longrightarrow>
   \<exists>pr \<in> set prs. err = NewNoCandidateError (PullRequestId pr)"
proof (induction prs arbitrary: pool acc)
  case Nil
  then show ?case by simp
next
  case (Cons pr prs)
  then show ?case
    by (fastforce split: prod.splits sum.splits dest: plan_reviewers_Inl)
qed

lemma plan_reviewers_Inr:
  "plan_reviewers prId rs T pool assigned (sw, ids, reps) = Inr (pool', sw', ids', reps') \<Longrightarrow>
   \<exists>new. sw' = sw @ new \<and> ids' = ids @ map sw_NewUserId new
        \<and> reps' = reps @ map replacement_of_swap new
        \<and> (\<forall>x \<in> set new. sw_PullRequestId x = prId)
        \<and> map sw_OldUserId new = filter (\<lambda>r. r \<in> T) rs"
proof (induction rs arbitrary: pool assigned sw ids reps)
  case Nil
  then show ?case by simp
next
  case (Cons r rs)
  show ?case
  proof (cases "r \<in> T")
    case False
    with Cons.prems have "plan_reviewers prId rs T pool assigned (sw, ids, reps) = Inr (pool', sw', ids', reps')"
      by simp
    from Cons.IH [OF this] False show ?thesis by simp
  next
    case True
    obtain n ok pool1 where tk: "reviewerPool_take pool assigned = ((n, ok), pool1)"
      by (metis surj_pair)
    with Cons.prems True have ok: ok by (auto split: if_splits)
    let ?s = "\<lparr>sw_PullRequestId = prId, sw_OldUserId = r, sw_NewUserId = n\<rparr>"
    from Cons.prems True tk ok
    have "plan_reviewers prId rs T pool1 (insert n assigned)
            (sw @ [?s], ids @ [n], reps @ [\<lparr>rr_OldUserId = r, rr_NewUserId = n\<rparr>])
          = Inr (pool', sw', ids', reps')"
      by simp
    from Cons.IH [OF this] obtain new where
      new: "sw' = (sw @ [?s]) @ new" "ids' = (ids @ [n]) @ map sw_NewUserId new"
           "reps' = (reps @ [\<lparr>rr_OldUserId = r, rr_NewUserId = n\<rparr>]) @ map replacement_of_swap new"
           "\<forall>x \<in> set new. sw_PullRequestId x = prId"
           "map sw_OldUserId new = filter (\<lambda>r. r \<in> T) rs"
      by blast
    show ?thesis
      using new True by (intro exI [of _ "?s # new"]) (simp add: replacement_of_swap_def)
  qed
qed

lemma swaps_of_reassignment_replacements:
  "\<forall>x \<in> set new. sw_PullRequestId x = prId \<Longrightarrow>
   swaps_of_reassignment \<lparr>ra_PullRequestId = prId, Replacements = map replacement_of_swap new\<rparr> = new"
  by (induction new) (simp_all add: swaps_of_reassignment_def replacement_of_swap_def)

lemma plan_prs_Inr:
  "plan_prs prs T pool (sw, ras, ids) = Inr (sw', ras', ids') \<Longrightarrow>
   \<exists>new newras. sw' = sw @ new \<and> ids' = ids @ map sw_NewUserId new \<and> ras' = ras @ newras
        \<and> concat (map swaps_of_reassignment newras) = new
        \<and> (\<forall>ra \<in> set newras. Replacements ra \<noteq> [])
        \<and> map (\<lambda>x. (sw_PullRequestId x, sw_OldUserId x)) new = targeted_slots T prs"
proof (induction prs arbitrary: pool sw ras ids)
  case Nil
  then show ?case by (simp add: targeted_slots_def)
next
  case (Cons pr prs)
  from Cons.prems obtain pool1 sw1 ids1 reps1 where
    inner: "plan_reviewers (PullRequestId pr) (AssignedReviewers pr) T pool
              (set (AssignedReviewers pr)) (sw, ids, []) = Inr (pool1, sw1, ids1, reps1)"
    and rest: "plan_prs prs T pool1
                 (sw1, if length reps1 > 0
                       then ras @ [\<lparr>ra_PullRequestId = PullRequestId pr, Replacements = reps1\<rparr>]
                       else ras, ids1) = Inr (sw', ras', ids')"
    by (auto split: sum.splits)
  from plan_reviewers_Inr [OF inner] obtain new1 where
    new1: "sw1 = sw @ new1" "ids1 = ids @ map sw_NewUserId new1"
          "reps1 = map replacement_of_swap new1"
          "\<forall>x \<in> set new1. sw_PullRequestId x = PullRequestId pr"
          "map sw_OldUserId new1 = filter (\<lambda>r. r \<in> T) (AssignedReviewers pr)"
    by auto
  from Cons.IH [OF rest] obtain new2 newras2 where
    new2: "sw' = sw1 @ new2" "ids' = ids1 @ map sw_NewUserId new2"
          "ras' = (if length reps1 > 0
                   then ras @ [\<lparr>ra_PullRequestId = PullRequestId pr, Replacements = reps1\<rparr>]
                   else ras) @ newras2"
          "concat (map swaps_of_reassignment newras2) = new2"
          "\<forall>ra \<in> set newras2. Replacements ra \<noteq> []"
          "map (\<lambda>x. (sw_PullRequestId x, sw_OldUserId x)) new2 = targeted_slots T prs"
    by blast
  have slots1: "map (\<lambda>x. (sw_PullRequestId x, sw_OldUserId x)) new1 =
        map (Pair (PullRequestId pr)) (filter (\<lambda>r. r \<in> T) (AssignedReviewers pr))"
  proof -
    have "map (\<lambda>x. (sw_PullRequestId x, sw_OldUserId x)) new1 =
          map (Pair (PullRequestId pr)) (map sw_OldUserId new1)"
      using new1(4) by (induction new1) auto
    then show ?thesis by (simp add: new1(5))
  qed
  show ?case
  proof (cases "new1 = []")
    case True
    with new1 new2 slots1 show ?thesis
      by (intro exI [of _ new2] exI [of _ newras2]) (simp add: targeted_slots_def)
  next
    case False
    let ?ra = "\<lparr>ra_PullRequestId = PullRequestId pr, Replacements = reps1\<rparr>"
    have "swaps_of_reassignment ?ra = new1"
      using new1(3,4) swaps_of_reassignment_replacements by simp
    with False new1 new2 slots1 show ?thesis
      by (intro exI [of _ "new1 @ new2"] exI [of _ "?ra # newras2"])
         (simp add: targeted_slots_def)
  qed
qed

lemma reviewerPool_take_wf:
  assumes "pool_wf p" and "reviewerPool_take p ex = ((c, ok), p')"
  shows "pool_wf p' \<and> available p' \<subseteq> available p
       \<and> (ok \<longrightarrow> c \<in> available p \<and> c \<notin> ex \<and> available p' = available p - {c})"
  using reviewerPool_take_alt [OF assms(1), of ex] assms by (auto simp: pool_wf_def)

lemma draws_available:
  "pool_wf p \<Longrightarrow> set (draws p exs) \<subseteq> available p \<and> distinct (draws p exs)"
proof (induction exs arbitrary: p)
  case Nil
  then show ?case by simp
next
  case (Cons ex exs)
  obtain c ok p' where tk: "reviewerPool_take p ex = ((c, ok), p')"
    by (metis surj_pair)
  note wf = reviewerPool_take_wf [OF Cons.prems tk]
  from Cons.IH [of p'] wf
  have ih: "set (draws p' exs) \<subseteq> available p'" "distinct (draws p' exs)"
    by simp_all
  show ?case
  proof (cases ok)
    case True
    with wf ih tk show ?thesis by auto
  next
    case False
    with wf ih tk show ?thesis by auto
  qed
qed

text \<open>
  Claim C5. The pool is a round-robin queue. For a pool as the program builds it
  (\<open>newReviewerPool\<close> yields one, and every draw keeps it one): a draw succeeds exactly
  when some available id is outside the exclusion set; the id it returns was available and
  is not excluded; that id leaves the available set and the queue, and no later draw, with
  whatever exclusion sets, returns it again; the ids passed over because they are excluded
  go to the back of the queue in their order, stay available, and any later draw that does
  not exclude one of them succeeds; a failed draw leaves the pool as it was.
\<close>

theorem reviewerPool_take_round_robin:
  assumes "pool_wf p" and "reviewerPool_take p ex = ((c, ok), p')"
  shows "pool_wf (newReviewerPool ids)
       \<and> pool_wf p'
       \<and> (ok \<longleftrightarrow> (\<exists>x \<in> available p. x \<notin> ex))
       \<and> (ok \<longrightarrow> c \<in> available p \<and> c \<notin> ex \<and> available p' = available p - {c}
                 \<and> (\<exists>pre post. queue p = pre @ c # post \<and> set pre \<subseteq> ex
                       \<and> queue p' = post @ pre \<and> set pre \<subseteq> available p')
                 \<and> (\<forall>exs. c \<notin> set (draws p' exs)))
       \<and> (\<not> ok \<longrightarrow> p' = p)
       \<and> (\<forall>x \<in> available p'. \<forall>ex'. x \<notin> ex' \<longrightarrow> snd (fst (reviewerPool_take p' ex')))"
proof -
  note wf = reviewerPool_take_wf [OF assms]
  note alt = reviewerPool_take_alt [OF assms(1), of ex]
  have iff: "ok \<longleftrightarrow> (\<exists>x \<in> available p. x \<notin> ex)"
    using alt assms by (auto simp: pool_wf_def)
  have shape: "ok \<longrightarrow> (\<exists>pre post. queue p = pre @ c # post \<and> set pre \<subseteq> ex
                       \<and> queue p' = post @ pre \<and> set pre \<subseteq> available p')"
  proof
    assume ok
    with alt assms obtain pre post where
      h: "queue p = pre @ c # post" "set pre \<subseteq> ex" "queue p' = post @ pre"
         "available p' = available p - {c}"
      by auto
    from h(1) assms(1) have "set pre \<subseteq> available p - {c}"
      by (auto simp: pool_wf_def)
    with h show "\<exists>pre post. queue p = pre @ c # post \<and> set pre \<subseteq> ex
                       \<and> queue p' = post @ pre \<and> set pre \<subseteq> available p'"
      by auto
  qed
  have later: "ok \<longrightarrow> (\<forall>exs. c \<notin> set (draws p' exs))"
    using draws_available [of p'] wf by auto
  have miss: "\<not> ok \<longrightarrow> p' = p"
    using alt assms by auto
  have drawable: "\<forall>x \<in> available p'. \<forall>ex'. x \<notin> ex' \<longrightarrow> snd (fst (reviewerPool_take p' ex'))"
  proof (intro ballI allI impI)
    fix x ex' assume x: "x \<in> available p'" "x \<notin> ex'"
    from wf have "pool_wf p'" by simp
    from reviewerPool_take_alt [OF this, of ex'] x
    show "snd (fst (reviewerPool_take p' ex'))" by auto
  qed
  from wf iff shape later miss drawable newReviewerPool_wf show ?thesis by blast
qed

theorem reviewerPool_take_round_robin_witness:
  "pool_wf (newReviewerPool [''a'', ''b'', ''c''])
   \<and> reviewerPool_take (newReviewerPool [''a'', ''b'', ''c'']) {''a''}
       = ((''b'', True), \<lparr>queue = [''c'', ''a''], available = {''a'', ''c''}\<rparr>)
   \<and> pool_wf \<lparr>queue = [''c'', ''a''], available = {''a'', ''c''}\<rparr>
   \<and> (\<forall>exs. ''b'' \<notin> set (draws \<lparr>queue = [''c'', ''a''], available = {''a'', ''c''}\<rparr> exs))
   \<and> snd (fst (reviewerPool_take \<lparr>queue = [''c'', ''a''], available = {''a'', ''c''}\<rparr> {''c''}))"
proof -
  have h1: "pool_wf (newReviewerPool [''a'', ''b'', ''c''])"
    by (auto simp: newReviewerPool_def pool_wf_def)
  have h2: "reviewerPool_take (newReviewerPool [''a'', ''b'', ''c'']) {''a''}
       = ((''b'', True), \<lparr>queue = [''c'', ''a''], available = {''a'', ''c''}\<rparr>)"
    by (auto simp: newReviewerPool_def reviewerPool_take_def)
  note t = reviewerPool_take_round_robin [OF h1 h2, of "[]"]
  from t have a: "pool_wf \<lparr>queue = [''c'', ''a''], available = {''a'', ''c''}\<rparr>"
    by blast
  from t have b: "\<forall>exs. ''b'' \<notin> set (draws \<lparr>queue = [''c'', ''a''], available = {''a'', ''c''}\<rparr> exs)"
    by blast
  from t have "\<forall>x \<in> available \<lparr>queue = [''c'', ''a''], available = {''a'', ''c''}\<rparr>.
      \<forall>ex'. x \<notin> ex' \<longrightarrow>
        snd (fst (reviewerPool_take \<lparr>queue = [''c'', ''a''], available = {''a'', ''c''}\<rparr> ex'))"
    by blast
  then have d: "snd (fst (reviewerPool_take \<lparr>queue = [''c'', ''a''], available = {''a'', ''c''}\<rparr> {''c''}))"
    by simp
  show ?thesis by (intro conjI h1 h2 a b d)
qed

section \<open>Claims on normalisation and the pool draw\<close>

lemma set_normalized_targets:
  "set (normalized_targets userIDs) = TrimSpace ` set userIDs - {[]}"
  by (auto simp: normalized_targets_def set_first_occurrences)

lemma errors_Is_Errorf: "\<not> errors_Is (Errorf msg args) t"
  by simp

lemma mapDomainError_Errorf: "mapDomainError (Some (Errorf msg args)) = (500, ''INTERNAL_ERROR'')"
  by (simp add: mapDomainError_def)

text \<open>
  Claim C7 does not hold as stated, at the list of two blank ids: the error that
  \<open>BulkDeactivateTeamMembers\<close> returns for it carries no error kind. It is the plain
  \<open>fmt.Errorf\<close> value \<open>no valid user ids provided\<close>: it matches no sentinel of the domain
  package, and \<open>mapDomainError\<close> files it under \<open>INTERNAL_ERROR\<close> with status 500, exactly
  as it files any other error it does not know, such as a failure of the database.
\<close>

theorem normalizeTargetUserIDs_error_kind_counterexample:
  "normalized_targets [''  '', [CHR 0x09]] = []
   \<and> fst (BulkDeactivateTeamMembers [] prManager ''backend'' [''  '', [CHR 0x09]]
          (NewUserManager (Some Storage_users), empty_Storage))
       = Inl (Errorf ''no valid user ids provided'' [])
   \<and> (\<forall>t. \<not> errors_Is (Errorf ''no valid user ids provided'' []) t)
   \<and> mapDomainError (Some (Errorf ''no valid user ids provided'' [])) = (500, ''INTERNAL_ERROR'')
   \<and> mapDomainError (Some (PgError ''connection refused'')) = (500, ''INTERNAL_ERROR'')"
proof -
  have a: "normalized_targets [''  '', [CHR 0x09]] = []"
    by code_simp
  have b: "fst (BulkDeactivateTeamMembers [] prManager ''backend'' [''  '', [CHR 0x09]]
          (NewUserManager (Some Storage_users), empty_Storage))
       = Inl (Errorf ''no valid user ids provided'' [])"
    by code_simp
  have c: "\<forall>t. \<not> errors_Is (Errorf ''no valid user ids provided'' []) t"
    by simp
  have d: "mapDomainError (Some (Errorf ''no valid user ids provided'' []))
             = (500, ''INTERNAL_ERROR'')"
    by (simp add: mapDomainError_def)
  have e: "mapDomainError (Some (PgError ''connection refused'')) = (500, ''INTERNAL_ERROR'')"
    by (simp add: mapDomainError_def)
  show ?thesis by (intro conjI a b c d e)
qed

text \<open>
  Claim C7, amended. \<open>normalizeTargetUserIDs\<close> returns the ids trimmed of white space,
  without the empty ones, each kept at its first occurrence, together with the set of
  them; when nothing is left it fails with the error \<open>no valid user ids provided\<close>.
  \<open>BulkDeactivateTeamMembers\<close> then fails before it reads or writes anything: with that
  error, or with the error of one of its two earlier input checks when the team name is
  blank or the list is empty. Each of these errors is a plain \<open>fmt.Errorf\<close> value that
  matches no sentinel of the domain package and that \<open>mapDomainError\<close> reports as
  \<open>INTERNAL_ERROR\<close>: the program has no error kind for an invalid payload.
\<close>

theorem normalizeTargetUserIDs_normalizes:
  "normalizeTargetUserIDs userIDs =
     (if normalized_targets userIDs = [] then Inl (Errorf ''no valid user ids provided'' [])
      else Inr (normalized_targets userIDs, set (normalized_targets userIDs)))
   \<and> normalized_targets userIDs =
       rev (remdups (rev (filter (\<lambda>uid. uid \<noteq> []) (map TrimSpace userIDs))))
   \<and> distinct (normalized_targets userIDs)
   \<and> set (normalized_targets userIDs) = TrimSpace ` set userIDs - {[]}
   \<and> (normalized_targets userIDs = [] \<longrightarrow>
        (\<exists>msg. BulkDeactivateTeamMembers ord prm teamName userIDs (um, s)
                  = (Inl (Errorf msg []), um, s)
             \<and> msg = (if TrimSpace teamName = [] then ''team name is required''
                       else if userIDs = [] then ''no user ids provided''
                       else ''no valid user ids provided'')
             \<and> (\<forall>t. \<not> errors_Is (Errorf msg []) t)
             \<and> mapDomainError (Some (Errorf msg [])) = (500, ''INTERNAL_ERROR'')))"
proof -
  have "normalized_targets userIDs = [] \<longrightarrow>
        BulkDeactivateTeamMembers ord prm teamName userIDs (um, s) =
          (Inl (Errorf (if TrimSpace teamName = [] then ''team name is required''
                        else if userIDs = [] then ''no user ids provided''
                        else ''no valid user ids provided'') []), um, s)"
    by (simp add: BulkDeactivateTeamMembers_def Let_def normalizeTargetUserIDs_eq)
  then have "normalized_targets userIDs = [] \<longrightarrow>
        (\<exists>msg. BulkDeactivateTeamMembers ord prm teamName userIDs (um, s)
                  = (Inl (Errorf msg []), um, s)
             \<and> msg = (if TrimSpace teamName = [] then ''team name is required''
                       else if userIDs = [] then ''no user ids provided''
                       else ''no valid user ids provided'')
             \<and> (\<forall>t. \<not> errors_Is (Errorf msg []) t)
             \<and> mapDomainError (Some (Errorf msg [])) = (500, ''INTERNAL_ERROR''))"
    using errors_Is_Errorf mapDomainError_Errorf by blast
  moreover have "normalized_targets userIDs =
       rev (remdups (rev (filter (\<lambda>uid. uid \<noteq> []) (map TrimSpace userIDs))))"
    by (simp add: normalized_targets_def first_occurrences_remdups)
  moreover have "distinct (normalized_targets userIDs)"
    by (simp add: normalized_targets_def distinct_first_occurrences)
  ultimately show ?thesis
    using normalizeTargetUserIDs_eq [of userIDs] set_normalized_targets [of userIDs]
    by blast
qed

theorem normalizeTargetUserIDs_normalizes_witness:
  "normalized_targets [''  '', [CHR 0x09]] = []
   \<and> BulkDeactivateTeamMembers [] prManager ''backend'' [''  '', [CHR 0x09]]
        (NewUserManager (Some Storage_users), empty_Storage) =
          (Inl (Errorf ''no valid user ids provided'' []),
           NewUserManager (Some Storage_users), empty_Storage)
   \<and> mapDomainError (Some (Errorf ''no valid user ids provided'' [])) = (500, ''INTERNAL_ERROR'')
   \<and> normalizeTargetUserIDs ['' u1 '', '''', ''u2'', ''u1'', ''   '']
        = Inr ([''u1'', ''u2''], {''u1'', ''u2''})"
proof -
  have h: "normalized_targets [''  '', [CHR 0x09]] = []"
    by code_simp
  have t: "TrimSpace ''backend'' \<noteq> []"
    by code_simp
  have n: "normalized_targets ['' u1 '', '''', ''u2'', ''u1'', ''   ''] = [''u1'', ''u2'']"
    by code_simp
  note w = normalizeTargetUserIDs_normalizes [of "[''  '', [CHR 0x09]]" "[]" prManager
      "''backend''" "NewUserManager (Some Storage_users)" empty_Storage]
  from w h obtain msg where
    m: "BulkDeactivateTeamMembers [] prManager ''backend'' [''  '', [CHR 0x09]]
          (NewUserManager (Some Storage_users), empty_Storage)
        = (Inl (Errorf msg []), NewUserManager (Some Storage_users), empty_Storage)"
       "msg = (if TrimSpace ''backend'' = [] then ''team name is required''
               else if [''  '', [CHR 0x09]] = [] then ''no user ids provided''
               else ''no valid user ids provided'')"
       "mapDomainError (Some (Errorf msg [])) = (500, ''INTERNAL_ERROR'')"
    by blast
  from m(2) t have msg: "msg = ''no valid user ids provided''" by simp
  note a = m(1) [unfolded msg] and c = m(3) [unfolded msg]
  from normalizeTargetUserIDs_normalizes [of "['' u1 '', '''', ''u2'', ''u1'', ''   '']"] n
  have b: "normalizeTargetUserIDs ['' u1 '', '''', ''u2'', ''u1'', ''   '']
        = Inr ([''u1'', ''u2''], {''u1'', ''u2''})"
    by auto
  show ?thesis by (intro conjI h a c b)
qed

section \<open>Claim on the durable activity switch\<close>

text \<open>
  Claim C8. For a user that is in the cache and a directory with a repository,
  \<open>SetUserActivity\<close> hands the user with the new flag to \<open>SaveUser\<close> in the same call. When
  the write succeeds the cache holds the new flag and the updated user is returned. When
  the write fails the call returns the error, wrapped, and the directory is exactly the
  one before the call: the flag is back at its prior value.
\<close>

theorem SetUserActivity_rollback:
  assumes "users um userID = Some user0"
  shows "(um_repo um = Some r \<and> repo_SaveUser r (user0\<lparr>IsActive := isActive\<rparr>) s = (Some err, s')
            \<longrightarrow> SetUserActivity um userID isActive s =
                  (Inl (Wrapf ''failed to save user: %w'' [] err), um, s'))
       \<and> (um_repo um = Some r \<and> repo_SaveUser r (user0\<lparr>IsActive := isActive\<rparr>) s = (None, s')
            \<longrightarrow> SetUserActivity um userID isActive s =
                  (Inr (user0\<lparr>IsActive := isActive\<rparr>),
                   um\<lparr>users := (users um)(userID \<mapsto> user0\<lparr>IsActive := isActive\<rparr>)\<rparr>, s'))"
proof -
  have restore: "(users um)(userID \<mapsto> user0) = users um"
    using assms by (simp add: map_upd_triv)
  show ?thesis
    using assms by (simp add: SetUserActivity_def Let_def restore)
qed

theorem SetUserActivity_rollback_witness:
  "users ex_um ''u1''
     = Some \<lparr>IsActive = True, TeamName = ''backend'', UserId = ''u1'', Username = ''Ann''\<rparr>
   \<and> SetUserActivity ex_um ''u1'' False empty_Storage
       = (Inl (Wrapf ''failed to save user: %w'' []
                 (Wrapf ''upsert user: %w'' [] (PgError ''users_team_name_fkey''))),
          ex_um, empty_Storage)
   \<and> SetUserActivity ex_um ''u1'' False ex_store
       = (Inr \<lparr>IsActive = False, TeamName = ''backend'', UserId = ''u1'', Username = ''Ann''\<rparr>,
          ex_um\<lparr>users := (users ex_um)(''u1'' \<mapsto>
             \<lparr>IsActive = False, TeamName = ''backend'', UserId = ''u1'', Username = ''Ann''\<rparr>)\<rparr>,
          ex_store\<lparr>users_tbl :=
            [(''u1'', \<lparr>col_username = ''Ann'', col_is_active = False,
                       col_team_name = Some ''backend''\<rparr>),
             (''u2'', \<lparr>col_username = ''Bob'', col_is_active = True,
                       col_team_name = Some ''backend''\<rparr>),
             (''u4'', \<lparr>col_username = ''Dan'', col_is_active = False,
                       col_team_name = Some ''backend''\<rparr>)]\<rparr>)"
proof -
  let ?u = "\<lparr>IsActive = True, TeamName = ''backend'', UserId = ''u1'', Username = ''Ann''\<rparr>"
  let ?st = "ex_store\<lparr>users_tbl :=
            [(''u1'', \<lparr>col_username = ''Ann'', col_is_active = False,
                       col_team_name = Some ''backend''\<rparr>),
             (''u2'', \<lparr>col_username = ''Bob'', col_is_active = True,
                       col_team_name = Some ''backend''\<rparr>),
             (''u4'', \<lparr>col_username = ''Dan'', col_is_active = False,
                       col_team_name = Some ''backend''\<rparr>)]\<rparr>"
  have h1: "users ex_um ''u1'' = Some ?u"
    by (simp add: ex_um_def ex_cache_def)
  have r: "um_repo ex_um = Some Storage_users"
    by (simp add: ex_um_def)
  have h2: "repo_SaveUser Storage_users (?u\<lparr>IsActive := False\<rparr>) empty_Storage
       = (Some (Wrapf ''upsert user: %w'' [] (PgError ''users_team_name_fkey'')), empty_Storage)"
    by code_simp
  have h3: "repo_SaveUser Storage_users (?u\<lparr>IsActive := False\<rparr>) ex_store = (None, ?st)"
    by code_simp
  from SetUserActivity_rollback [OF h1, of Storage_users False empty_Storage _ empty_Storage] r h2
  have c: "SetUserActivity ex_um ''u1'' False empty_Storage
       = (Inl (Wrapf ''failed to save user: %w'' []
                 (Wrapf ''upsert user: %w'' [] (PgError ''users_team_name_fkey''))),
          ex_um, empty_Storage)"
    by blast
  from SetUserActivity_rollback [OF h1, of Storage_users False ex_store _ ?st] r h3
  have d: "SetUserActivity ex_um ''u1'' False ex_store
       = (Inr (?u\<lparr>IsActive := False\<rparr>),
          ex_um\<lparr>users := (users ex_um)(''u1'' \<mapsto> ?u\<lparr>IsActive := False\<rparr>)\<rparr>, ?st)"
    by blast
  show ?thesis using h1 c d by simp
qed

section \<open>Claims on bulk deactivation, for any repository\<close>

lemma normalizeTargetUserIDs_Inr:
  "normalizeTargetUserIDs userIDs = Inr (targets, targetSet) \<Longrightarrow>
   targets = normalized_targets userIDs \<and> targetSet = set targets \<and> targets \<noteq> [] \<and> userIDs \<noteq> []"
  by (auto simp: normalizeTargetUserIDs_eq normalized_targets_def split: if_splits)

subsection \<open>When the planner fails\<close>

lemma pool_wf_finite: "pool_wf p \<Longrightarrow> finite (available p)"
  by (metis List.finite_set pool_wf_def)

lemma reviewerPool_take_cases:
  assumes "pool_wf p"
  shows "(available p \<subseteq> ex \<and> (\<exists>c. reviewerPool_take p ex = ((c, False), p)))
       \<or> (\<exists>c p'. c \<in> available p \<and> c \<notin> ex \<and> pool_wf p'
              \<and> available p' = available p - {c}
              \<and> reviewerPool_take p ex = ((c, True), p'))"
proof -
  from reviewerPool_take_alt [OF assms, of ex]
  consider "available p \<subseteq> ex" "reviewerPool_take p ex = (([], False), p)"
    | c pre post where "queue p = pre @ c # post" "c \<notin> ex"
        "reviewerPool_take p ex = ((c, True), \<lparr>queue = post @ pre, available = available p - {c}\<rparr>)"
    by blast
  then show ?thesis
  proof cases
    case 1
    then show ?thesis by blast
  next
    case 2
    let ?p' = "\<lparr>queue = post @ pre, available = available p - {c}\<rparr>"
    from assms 2(1) have "c \<in> available p" and "pool_wf ?p'"
      by (auto simp: pool_wf_def)
    with 2 show ?thesis by (intro disjI2 exI [of _ c] exI [of _ ?p']) simp
  qed
qed

lemma plan_reviewers_exact:
  assumes "pool_wf pool"
  shows "(\<forall>e. plan_reviewers prId rs T pool assigned (sw, ids, reps) = Inl e \<longrightarrow>
            e = NewNoCandidateError prId
          \<and> card (available pool - assigned) < length (filter (\<lambda>r. r \<in> T) rs))
       \<and> (\<forall>pool' sw' ids' reps'.
            plan_reviewers prId rs T pool assigned (sw, ids, reps)
              = Inr (pool', sw', ids', reps') \<longrightarrow>
            pool_wf pool'
          \<and> length (filter (\<lambda>r. r \<in> T) rs) \<le> card (available pool - assigned)
          \<and> (\<exists>new. sw' = sw @ new
                   \<and> available pool' = available pool - set (map sw_NewUserId new)))"
  using assms
proof (induction rs arbitrary: pool assigned sw ids reps)
  case Nil
  then show ?case by simp
next
  case (Cons r rs)
  show ?case
  proof (cases "r \<in> T")
    case False
    then have "plan_reviewers prId (r # rs) T pool assigned (sw, ids, reps)
                 = plan_reviewers prId rs T pool assigned (sw, ids, reps)"
      and "filter (\<lambda>r. r \<in> T) (r # rs) = filter (\<lambda>r. r \<in> T) rs"
      by simp_all
    with Cons.IH [OF Cons.prems, of assigned sw ids reps] show ?thesis
      by (simp only:)
  next
    case True
    from reviewerPool_take_cases [OF Cons.prems, of assigned]
    consider c where "available pool \<subseteq> assigned" "reviewerPool_take pool assigned = ((c, False), pool)"
      | c p' where "c \<in> available pool" "c \<notin> assigned" "pool_wf p'"
          "available p' = available pool - {c}" "reviewerPool_take pool assigned = ((c, True), p')"
      by blast
    then show ?thesis
    proof cases
      case 1
      from 1(1) have "card (available pool - assigned) = 0"
        by (metis Diff_eq_empty_iff card.empty)
      with True 1(2) show ?thesis by simp
    next
      case 2
      let ?s = "\<lparr>sw_PullRequestId = prId, sw_OldUserId = r, sw_NewUserId = c\<rparr>"
      let ?run = "plan_reviewers prId rs T p' (insert c assigned)
            (sw @ [?s], ids @ [c], reps @ [\<lparr>rr_OldUserId = r, rr_NewUserId = c\<rparr>])"
      have step: "plan_reviewers prId (r # rs) T pool assigned (sw, ids, reps) = ?run"
        using True 2(5) by simp
      have len: "length (filter (\<lambda>r. r \<in> T) (r # rs)) = Suc (length (filter (\<lambda>r. r \<in> T) rs))"
        using True by simp
      have fin: "finite (available pool - assigned)"
        using pool_wf_finite [OF Cons.prems] by simp
      have mem: "c \<in> available pool - assigned" using 2(1,2) by simp
      have eq: "available p' - insert c assigned = (available pool - assigned) - {c}"
        using 2(4) by blast
      have card: "card (available pool - assigned)
                    = Suc (card (available p' - insert c assigned))"
        unfolding eq using fin mem by (rule card.remove)
      note ih = Cons.IH [OF 2(3), of "insert c assigned" "sw @ [?s]" "ids @ [c]"
                          "reps @ [\<lparr>rr_OldUserId = r, rr_NewUserId = c\<rparr>]"]
      have one: "e = NewNoCandidateError prId
          \<and> card (available pool - assigned) < length (filter (\<lambda>r. r \<in> T) (r # rs))"
        if "?run = Inl e" for e
      proof -
        from ih that have "e = NewNoCandidateError prId"
          "card (available p' - insert c assigned) < length (filter (\<lambda>r. r \<in> T) rs)"
          by blast+
        then show ?thesis unfolding len card by simp
      qed
      have two: "pool_wf pool'
          \<and> length (filter (\<lambda>r. r \<in> T) (r # rs)) \<le> card (available pool - assigned)
          \<and> (\<exists>new. sw' = sw @ new
                   \<and> available pool' = available pool - set (map sw_NewUserId new))"
        if "?run = Inr (pool', sw', ids', reps')" for pool' sw' ids' reps'
      proof -
        from ih that obtain new where
          a: "pool_wf pool'"
             "length (filter (\<lambda>r. r \<in> T) rs) \<le> card (available p' - insert c assigned)"
             "sw' = (sw @ [?s]) @ new"
             "available pool' = available p' - set (map sw_NewUserId new)"
          by blast
        have "sw' = sw @ (?s # new)" using a(3) by simp
        moreover have "available pool' = available pool - set (map sw_NewUserId (?s # new))"
          using a(4) 2(4) by auto
        ultimately have "\<exists>new. sw' = sw @ new
                       \<and> available pool' = available pool - set (map sw_NewUserId new)"
          by blast
        with a(1,2) show ?thesis unfolding len card by simp
      qed
      from one two show ?thesis unfolding step by blast
    qed
  qed
qed

lemma plan_prs_append_Inl:
  "plan_prs done T pool acc = Inl e \<Longrightarrow> plan_prs (done @ rest) T pool acc = Inl e"
proof (induction "done" arbitrary: pool acc)
  case Nil
  then show ?case by simp
next
  case (Cons pr prs)
  then show ?case by (auto split: prod.splits sum.splits)
qed

lemma plan_prs_track:
  assumes "pool_wf pool"
    and "plan_prs done T pool (sw, ras, ids) = Inr (sw1, ras1, ids1)"
  shows "\<exists>pool1 new. pool_wf pool1 \<and> sw1 = sw @ new
           \<and> available pool1 = available pool - set (map sw_NewUserId new)
           \<and> (\<forall>rest. plan_prs (done @ rest) T pool (sw, ras, ids)
                        = plan_prs rest T pool1 (sw1, ras1, ids1))"
  using assms
proof (induction "done" arbitrary: pool sw ras ids)
  case Nil
  then show ?case by (intro exI [of _ pool] exI [of _ "[]"]) simp
next
  case (Cons pr prs)
  let ?p = "PullRequestId pr"
  from Cons.prems(2) obtain pool2 sw2 ids2 reps where
    inner: "plan_reviewers ?p (AssignedReviewers pr) T pool (set (AssignedReviewers pr))
              (sw, ids, []) = Inr (pool2, sw2, ids2, reps)"
    and more: "plan_prs prs T pool2
                 (sw2, if length reps > 0
                       then ras @ [\<lparr>ra_PullRequestId = ?p, Replacements = reps\<rparr>] else ras,
                  ids2) = Inr (sw1, ras1, ids1)"
    by (auto split: sum.splits)
  from plan_reviewers_exact [OF Cons.prems(1), where prId = ?p and rs = "AssignedReviewers pr"
         and T = T and assigned = "set (AssignedReviewers pr)" and sw = sw and ids = ids
         and reps = "[]"] inner
  obtain new1 where wf2: "pool_wf pool2" and sw2: "sw2 = sw @ new1"
    and av2: "available pool2 = available pool - set (map sw_NewUserId new1)"
    by auto
  from Cons.IH [OF wf2 more] obtain pool1 new2 where
    wf1: "pool_wf pool1" and sw1: "sw1 = sw2 @ new2"
    and av1: "available pool1 = available pool2 - set (map sw_NewUserId new2)"
    and app: "\<forall>rest. plan_prs (prs @ rest) T pool2
                 (sw2, if length reps > 0
                       then ras @ [\<lparr>ra_PullRequestId = ?p, Replacements = reps\<rparr>] else ras,
                  ids2) = plan_prs rest T pool1 (sw1, ras1, ids1)"
    by blast
  have a: "sw1 = sw @ (new1 @ new2)" using sw1 sw2 by simp
  have b: "available pool1 = available pool - set (map sw_NewUserId (new1 @ new2))"
    using av1 av2 by auto
  have c: "plan_prs ((pr # prs) @ rest) T pool (sw, ras, ids)
             = plan_prs rest T pool1 (sw1, ras1, ids1)" for rest
    using inner app by simp
  from wf1 a b c show ?case
    by (intro exI [of _ pool1] exI [of _ "new1 @ new2"]) blast
qed

lemma plan_prs_short:
  assumes "pool_wf pool"
    and "card (available pool - set (AssignedReviewers pr))
           < length (filter (\<lambda>r. r \<in> T) (AssignedReviewers pr))"
  shows "plan_prs (pr # rest) T pool (sw, ras, ids) = Inl (NewNoCandidateError (PullRequestId pr))"
proof -
  let ?run = "plan_reviewers (PullRequestId pr) (AssignedReviewers pr) T pool
                (set (AssignedReviewers pr)) (sw, ids, [])"
  note e = plan_reviewers_exact [OF assms(1), where prId = "PullRequestId pr"
         and rs = "AssignedReviewers pr" and T = T and assigned = "set (AssignedReviewers pr)"
         and sw = sw and ids = ids and reps = "[]"]
  show ?thesis
  proof (cases ?run)
    case (Inl err)
    with e have "err = NewNoCandidateError (PullRequestId pr)" by blast
    with Inl show ?thesis by simp
  next
    case (Inr res)
    obtain pool' sw' ids' reps' where "res = (pool', sw', ids', reps')"
      by (cases res) auto
    with e Inr have "length (filter (\<lambda>r. r \<in> T) (AssignedReviewers pr))
                       \<le> card (available pool - set (AssignedReviewers pr))"
      by blast
    with assms(2) have False by simp
    then show ?thesis ..
  qed
qed

lemma plan_prs_short_of_candidates:
  assumes "plan_prs done T (newReviewerPool cands) ([], [], []) = Inr (swaps, ras, ids)"
    and "short_of_candidates T cands swaps pr"
  shows "plan_prs (done @ pr # rest) T (newReviewerPool cands) ([], [], [])
           = Inl (NewNoCandidateError (PullRequestId pr))"
proof -
  from plan_prs_track [OF newReviewerPool_wf assms(1)] obtain pool1 where
    wf1: "pool_wf pool1"
    and av1: "available pool1 = available (newReviewerPool cands) - set (map sw_NewUserId swaps)"
    and app: "plan_prs (done @ pr # rest) T (newReviewerPool cands) ([], [], [])
                = plan_prs (pr # rest) T pool1 (swaps, ras, ids)"
    by auto
  from av1 have "available pool1 = remaining_candidates cands swaps"
    by (simp add: newReviewerPool_available remaining_candidates_def)
  with assms(2) have "card (available pool1 - set (AssignedReviewers pr))
           < length (filter (\<lambda>r. r \<in> T) (AssignedReviewers pr))"
    by (simp add: short_of_candidates_def)
  from plan_prs_short [OF wf1 this] app show ?thesis by simp
qed

lemma short_of_candidates_mono:
  assumes "short_of_candidates T cands [] pr"
  shows "short_of_candidates T cands swaps pr"
proof -
  have "remaining_candidates cands swaps - set (AssignedReviewers pr)
          \<subseteq> remaining_candidates cands [] - set (AssignedReviewers pr)"
    by (auto simp: remaining_candidates_def)
  moreover have "finite (remaining_candidates cands [] - set (AssignedReviewers pr))"
    by (simp add: remaining_candidates_def)
  ultimately have "card (remaining_candidates cands swaps - set (AssignedReviewers pr))
          \<le> card (remaining_candidates cands [] - set (AssignedReviewers pr))"
    by (rule card_mono [rotated])
  with assms show ?thesis by (simp add: short_of_candidates_def)
qed

lemma BulkDeactivate_plan_fails:
  assumes "TrimSpace teamName0 \<noteq> []"
    and "normalizeTargetUserIDs userIDs = Inr (targets, targetSet)"
    and "GetTeam ord um (TrimSpace teamName0) s = Inr team"
    and "ensureTargetsInTeam targets (Members team) = None"
    and "repo_FindOpenPullRequestsByReviewers (prm_repo prm) targets s = Inr openPRs"
    and "plan_prs openPRs targetSet
           (newReviewerPool (collectReplacementCandidates (Members team) targetSet))
           ([], [], []) = Inl err"
  shows "BulkDeactivateTeamMembers ord prm teamName0 userIDs (um, s) = (Inl err, um, s)"
proof -
  from normalizeTargetUserIDs_Inr [OF assms(2)] have ne: "userIDs \<noteq> []" by simp
  show ?thesis
    using assms ne
    by (simp add: BulkDeactivateTeamMembers_def planBulkReviewerSwaps_def Let_def)
qed

lemma plan_prs_fail_split:
  assumes "pool_wf pool"
    and "plan_prs prs T pool (sw, ras, ids) = Inl err"
  shows "\<exists>done pr rest new ras1 ids1.
           prs = done @ pr # rest
         \<and> plan_prs done T pool (sw, ras, ids) = Inr (sw @ new, ras1, ids1)
         \<and> card (available pool - set (map sw_NewUserId new) - set (AssignedReviewers pr))
              < length (filter (\<lambda>r. r \<in> T) (AssignedReviewers pr))
         \<and> err = NewNoCandidateError (PullRequestId pr)"
  using assms
proof (induction prs arbitrary: pool sw ras ids)
  case Nil
  then show ?case by simp
next
  case (Cons pr prs)
  let ?p = "PullRequestId pr"
  let ?run = "plan_reviewers ?p (AssignedReviewers pr) T pool (set (AssignedReviewers pr))
                (sw, ids, [])"
  note e = plan_reviewers_exact [OF Cons.prems(1), where prId = ?p
         and rs = "AssignedReviewers pr" and T = T and assigned = "set (AssignedReviewers pr)"
         and sw = sw and ids = ids and reps = "[]"]
  show ?case
  proof (cases ?run)
    case (Inl e1)
    with Cons.prems(2) have "err = e1" by simp
    with e Inl have "err = NewNoCandidateError ?p"
      "card (available pool - set (AssignedReviewers pr))
         < length (filter (\<lambda>r. r \<in> T) (AssignedReviewers pr))"
      by blast+
    then show ?thesis
      by (intro exI [of _ "[]"] exI [of _ pr] exI [of _ prs] exI [of _ ras] exI [of _ ids]) simp
  next
    case (Inr res)
    obtain pool2 sw2 ids2 reps where res: "res = (pool2, sw2, ids2, reps)"
      by (cases res) auto
    let ?ras2 = "if length reps > 0
                 then ras @ [\<lparr>ra_PullRequestId = ?p, Replacements = reps\<rparr>] else ras"
    from e Inr res obtain new1 where wf2: "pool_wf pool2" and sw2: "sw2 = sw @ new1"
      and av2: "available pool2 = available pool - set (map sw_NewUserId new1)"
      by blast
    from Cons.prems(2) Inr res
    have more: "plan_prs prs T pool2 (sw2, ?ras2, ids2) = Inl err" by simp
    from Cons.IH [OF wf2 more] obtain done' pr' rest new2 ras1 ids1 where
      sp: "prs = done' @ pr' # rest"
      and pre: "plan_prs done' T pool2 (sw2, ?ras2, ids2) = Inr (sw2 @ new2, ras1, ids1)"
      and card: "card (available pool2 - set (map sw_NewUserId new2) - set (AssignedReviewers pr'))
              < length (filter (\<lambda>r. r \<in> T) (AssignedReviewers pr'))"
      and err: "err = NewNoCandidateError (PullRequestId pr')"
      by blast
    have a: "pr # prs = (pr # done') @ pr' # rest" using sp by simp
    have b: "plan_prs (pr # done') T pool (sw, ras, ids) = Inr (sw @ (new1 @ new2), ras1, ids1)"
      using Inr res pre sw2 by simp
    have "available pool2 - set (map sw_NewUserId new2)
            = available pool - set (map sw_NewUserId (new1 @ new2))"
      using av2 by auto
    with card have c: "card (available pool - set (map sw_NewUserId (new1 @ new2))
                               - set (AssignedReviewers pr'))
              < length (filter (\<lambda>r. r \<in> T) (AssignedReviewers pr'))"
      by simp
    from a b c err show ?thesis by blast
  qed
qed

lemma errors_Is_NoCandidate: "errors_Is (NewNoCandidateError q) ErrNoCandidate"
  by (simp add: NewNoCandidateError_def)

text \<open>
  Claim C2. Bulk deactivation is all-or-nothing. Take a call whose input checks pass, whose
  team is found with the targets among its members, and for which the repository returns
  the open pull requests \<open>openPRs\<close>. The planner works through them in order. When it has
  planned a first part \<open>done\<close> of them, drawing the replacements \<open>swaps\<close>, and the next pull
  request has more targeted reviewers than there are candidates left that do not review
  it already, the operation returns \<open>NoCandidate\<close> for that pull request with the directory
  and the repository state it was given, whatever \<open>ApplyBulkTeamReviewerSwaps\<close> would do:
  it is not called. The same holds, for one of the open pull requests, as soon as some
  open pull request is short of candidates even before any draw. Conversely the planner
  fails only in this way.
\<close>

theorem BulkDeactivate_all_or_nothing:
  assumes "TrimSpace teamName0 \<noteq> []"
    and "normalizeTargetUserIDs userIDs = Inr (targets, targetSet)"
    and "GetTeam ord um (TrimSpace teamName0) s = Inr team"
    and "ensureTargetsInTeam targets (Members team) = None"
    and "repo_FindOpenPullRequestsByReviewers (prm_repo prm) targets s = Inr openPRs"
    and "cands = collectReplacementCandidates (Members team) targetSet"
  shows "(\<forall>done pr rest swaps ras ids.
            openPRs = done @ pr # rest
          \<and> plan_prs done targetSet (newReviewerPool cands) ([], [], []) = Inr (swaps, ras, ids)
          \<and> short_of_candidates targetSet cands swaps pr \<longrightarrow>
            BulkDeactivateTeamMembers ord prm teamName0 userIDs (um, s)
              = (Inl (NewNoCandidateError (PullRequestId pr)), um, s)
          \<and> (\<forall>f. BulkDeactivateTeamMembers ord
                 (prm\<lparr>prm_repo := (prm_repo prm)\<lparr>repo_ApplyBulkTeamReviewerSwaps := f\<rparr>\<rparr>)
                 teamName0 userIDs (um, s)
                = (Inl (NewNoCandidateError (PullRequestId pr)), um, s)))
       \<and> ((\<exists>pr \<in> set openPRs. short_of_candidates targetSet cands [] pr) \<longrightarrow>
            (\<exists>q \<in> set openPRs.
               BulkDeactivateTeamMembers ord prm teamName0 userIDs (um, s)
                 = (Inl (NewNoCandidateError (PullRequestId q)), um, s)
             \<and> (\<forall>f. BulkDeactivateTeamMembers ord
                    (prm\<lparr>prm_repo := (prm_repo prm)\<lparr>repo_ApplyBulkTeamReviewerSwaps := f\<rparr>\<rparr>)
                    teamName0 userIDs (um, s)
                   = (Inl (NewNoCandidateError (PullRequestId q)), um, s))))
       \<and> (\<forall>err. plan_prs openPRs targetSet (newReviewerPool cands) ([], [], []) = Inl err \<longrightarrow>
            (\<exists>done pr rest swaps ras ids.
               openPRs = done @ pr # rest
             \<and> plan_prs done targetSet (newReviewerPool cands) ([], [], [])
                 = Inr (swaps, ras, ids)
             \<and> short_of_candidates targetSet cands swaps pr
             \<and> err = NewNoCandidateError (PullRequestId pr)))
       \<and> (\<forall>q. errors_Is (NewNoCandidateError q) ErrNoCandidate)"
proof -
  let ?pool = "newReviewerPool cands"
  let ?B = "\<lambda>m. BulkDeactivateTeamMembers ord m teamName0 userIDs (um, s)"
  let ?upd = "\<lambda>f. prm\<lparr>prm_repo := (prm_repo prm)\<lparr>repo_ApplyBulkTeamReviewerSwaps := f\<rparr>\<rparr>"
  have fails: "?B prm = (Inl err, um, s) \<and> (\<forall>f. ?B (?upd f) = (Inl err, um, s))"
    if p: "plan_prs openPRs targetSet ?pool ([], [], []) = Inl err" for err
  proof -
    from p have p': "plan_prs openPRs targetSet
           (newReviewerPool (collectReplacementCandidates (Members team) targetSet))
           ([], [], []) = Inl err"
      unfolding assms(6) .
    have "?B prm = (Inl err, um, s)"
      by (rule BulkDeactivate_plan_fails [OF assms(1-5) p'])
    moreover have "?B (?upd f) = (Inl err, um, s)" for f
    proof -
      have "repo_FindOpenPullRequestsByReviewers (prm_repo (?upd f)) targets s = Inr openPRs"
        using assms(5) by simp
      from BulkDeactivate_plan_fails [OF assms(1-4) this p'] show ?thesis .
    qed
    ultimately show ?thesis by blast
  qed
  have dyn: "?B prm = (Inl (NewNoCandidateError (PullRequestId pr)), um, s)
           \<and> (\<forall>f. ?B (?upd f) = (Inl (NewNoCandidateError (PullRequestId pr)), um, s))"
    if "openPRs = done @ pr # rest"
      and "plan_prs done targetSet ?pool ([], [], []) = Inr (swaps, ras, ids)"
      and "short_of_candidates targetSet cands swaps pr"
    for "done" pr rest swaps ras ids
  proof -
    from plan_prs_short_of_candidates [OF that(2,3), of rest] that(1)
    have "plan_prs openPRs targetSet ?pool ([], [], [])
            = Inl (NewNoCandidateError (PullRequestId pr))"
      by simp
    from fails [OF this] show ?thesis .
  qed
  have stat: "\<exists>q \<in> set openPRs.
               ?B prm = (Inl (NewNoCandidateError (PullRequestId q)), um, s)
             \<and> (\<forall>f. ?B (?upd f) = (Inl (NewNoCandidateError (PullRequestId q)), um, s))"
    if "pr \<in> set openPRs" and sh: "short_of_candidates targetSet cands [] pr" for pr
  proof -
    from that(1) obtain done' rest where sp: "openPRs = done' @ pr # rest"
      by (auto simp: in_set_conv_decomp)
    show ?thesis
    proof (cases "plan_prs done' targetSet ?pool ([], [], [])")
      case (Inl e)
      from plan_prs_Inl [OF Inl] obtain q where
        q: "q \<in> set done'" "e = NewNoCandidateError (PullRequestId q)"
        by blast
      from plan_prs_append_Inl [OF Inl, of "pr # rest"] sp
      have "plan_prs openPRs targetSet ?pool ([], [], []) = Inl e" by simp
      from fails [OF this] q sp show ?thesis by auto
    next
      case (Inr res)
      obtain swaps ras ids where "res = (swaps, ras, ids)" by (cases res) auto
      with Inr have pre: "plan_prs done' targetSet ?pool ([], [], []) = Inr (swaps, ras, ids)"
        by simp
      from dyn [OF sp pre short_of_candidates_mono [OF sh]] that(1) show ?thesis by blast
    qed
  qed
  have conv: "\<exists>done pr rest swaps ras ids.
               openPRs = done @ pr # rest
             \<and> plan_prs done targetSet ?pool ([], [], []) = Inr (swaps, ras, ids)
             \<and> short_of_candidates targetSet cands swaps pr
             \<and> err = NewNoCandidateError (PullRequestId pr)"
    if p: "plan_prs openPRs targetSet ?pool ([], [], []) = Inl err" for err
  proof -
    from plan_prs_fail_split [OF newReviewerPool_wf p]
    obtain done' pr rest new ras1 ids1 where
      sp: "openPRs = done' @ pr # rest"
      and pre: "plan_prs done' targetSet ?pool ([], [], []) = Inr (new, ras1, ids1)"
      and card: "card (available ?pool - set (map sw_NewUserId new) - set (AssignedReviewers pr))
              < length (filter (\<lambda>r. r \<in> targetSet) (AssignedReviewers pr))"
      and err: "err = NewNoCandidateError (PullRequestId pr)"
      by auto
    from card have "short_of_candidates targetSet cands new pr"
      by (simp add: short_of_candidates_def remaining_candidates_def newReviewerPool_available)
    with sp pre err show ?thesis by blast
  qed
  show ?thesis
  proof (intro conjI allI impI)
    fix done' pr rest swaps ras ids
    assume h: "openPRs = done' @ pr # rest
          \<and> plan_prs done' targetSet ?pool ([], [], []) = Inr (swaps, ras, ids)
          \<and> short_of_candidates targetSet cands swaps pr"
    then have h1: "openPRs = done' @ pr # rest"
      and h2: "plan_prs done' targetSet ?pool ([], [], []) = Inr (swaps, ras, ids)"
      and h3: "short_of_candidates targetSet cands swaps pr"
      by blast+
    note d = dyn [OF h1 h2 h3]
    from d show "?B prm = (Inl (NewNoCandidateError (PullRequestId pr)), um, s)" by blast
    fix f
    from d show "?B (?upd f) = (Inl (NewNoCandidateError (PullRequestId pr)), um, s)" by blast
  next
    assume "\<exists>pr \<in> set openPRs. short_of_candidates targetSet cands [] pr"
    then obtain pr where "pr \<in> set openPRs" "short_of_candidates targetSet cands [] pr"
      by blast
    from stat [OF this]
    show "\<exists>q \<in> set openPRs.
               ?B prm = (Inl (NewNoCandidateError (PullRequestId q)), um, s)
             \<and> (\<forall>f. ?B (?upd f) = (Inl (NewNoCandidateError (PullRequestId q)), um, s))" .
  next
    fix err
    assume "plan_prs openPRs targetSet ?pool ([], [], []) = Inl err"
    from conv [OF this]
    show "\<exists>done pr rest swaps ras ids.
               openPRs = done @ pr # rest
             \<and> plan_prs done targetSet ?pool ([], [], []) = Inr (swaps, ras, ids)
             \<and> short_of_candidates targetSet cands swaps pr
             \<and> err = NewNoCandidateError (PullRequestId pr)" .
  next
    fix q
    show "errors_Is (NewNoCandidateError q) ErrNoCandidate" by (rule errors_Is_NoCandidate)
  qed
qed

theorem BulkDeactivate_all_or_nothing_witness:
  "repo_FindOpenPullRequestsByReviewers (prm_repo prManager) [''c1''] ex_store2
       = Inr [\<lparr>AssignedReviewers = [''c1''], AuthorId = ''c3'', CreatedAt = Some 2,
               MergedAt = None, PullRequestId = ''qa'', PullRequestName = ''A'',
               Status = ''OPEN''\<rparr>,
              \<lparr>AssignedReviewers = [''c1'', ''c2''], AuthorId = ''c3'', CreatedAt = Some 1,
               MergedAt = None, PullRequestId = ''qb'', PullRequestName = ''B'',
               Status = ''OPEN''\<rparr>]
   \<and> plan_prs [\<lparr>AssignedReviewers = [''c1''], AuthorId = ''c3'', CreatedAt = Some 2,
               MergedAt = None, PullRequestId = ''qa'', PullRequestName = ''A'',
               Status = ''OPEN''\<rparr>] {''c1''} (newReviewerPool [''c2'']) ([], [], [])
       = Inr ([\<lparr>sw_PullRequestId = ''qa'', sw_OldUserId = ''c1'', sw_NewUserId = ''c2''\<rparr>],
              [\<lparr>ra_PullRequestId = ''qa'',
                Replacements = [\<lparr>rr_OldUserId = ''c1'', rr_NewUserId = ''c2''\<rparr>]\<rparr>],
              [''c2''])
   \<and> short_of_candidates {''c1''} [''c2'']
        [\<lparr>sw_PullRequestId = ''qa'', sw_OldUserId = ''c1'', sw_NewUserId = ''c2''\<rparr>]
        \<lparr>AssignedReviewers = [''c1'', ''c2''], AuthorId = ''c3'', CreatedAt = Some 1,
               MergedAt = None, PullRequestId = ''qb'', PullRequestName = ''B'',
               Status = ''OPEN''\<rparr>
   \<and> BulkDeactivateTeamMembers [] prManager ''core'' [''c1'']
        (NewUserManager (Some Storage_users), ex_store2)
       = (Inl (NewNoCandidateError ''qb''), NewUserManager (Some Storage_users), ex_store2)
   \<and> (\<forall>f. BulkDeactivateTeamMembers []
              (prManager\<lparr>prm_repo := (prm_repo prManager)\<lparr>repo_ApplyBulkTeamReviewerSwaps := f\<rparr>\<rparr>)
              ''core'' [''c1''] (NewUserManager (Some Storage_users), ex_store2)
       = (Inl (NewNoCandidateError ''qb''), NewUserManager (Some Storage_users), ex_store2))
   \<and> errors_Is (NewNoCandidateError ''qb'') ErrNoCandidate
   \<and> short_of_candidates {''c1''} [''c2''] []
        \<lparr>AssignedReviewers = [''c1'', ''c2''], AuthorId = ''c3'', CreatedAt = Some 1,
               MergedAt = None, PullRequestId = ''qb'', PullRequestName = ''B'',
               Status = ''OPEN''\<rparr>
   \<and> (\<exists>q \<in> {''qa'', ''qb''}.
         BulkDeactivateTeamMembers [] prManager ''core'' [''c1'']
           (NewUserManager (Some Storage_users), ex_store2)
         = (Inl (NewNoCandidateError q), NewUserManager (Some Storage_users), ex_store2))
   \<and> plan_prs [\<lparr>AssignedReviewers = [''c1''], AuthorId = ''c3'', CreatedAt = Some 2,
               MergedAt = None, PullRequestId = ''qa'', PullRequestName = ''A'',
               Status = ''OPEN''\<rparr>,
              \<lparr>AssignedReviewers = [''c1'', ''c2''], AuthorId = ''c3'', CreatedAt = Some 1,
               MergedAt = None, PullRequestId = ''qb'', PullRequestName = ''B'',
               Status = ''OPEN''\<rparr>] {''c1''} (newReviewerPool [''c2'']) ([], [], [])
       = Inl (NewNoCandidateError ''qb'')
   \<and> (\<exists>done pr swaps.
         PullRequestId pr = ''qb''
       \<and> (\<exists>rest. [\<lparr>AssignedReviewers = [''c1''], AuthorId = ''c3'', CreatedAt = Some 2,
               MergedAt = None, PullRequestId = ''qa'', PullRequestName = ''A'',
               Status = ''OPEN''\<rparr>,
              \<lparr>AssignedReviewers = [''c1'', ''c2''], AuthorId = ''c3'', CreatedAt = Some 1,
               MergedAt = None, PullRequestId = ''qb'', PullRequestName = ''B'',
               Status = ''OPEN''\<rparr>] = done @ pr # rest)
       \<and> (\<exists>ras ids. plan_prs done {''c1''} (newReviewerPool [''c2'']) ([], [], [])
                        = Inr (swaps, ras, ids))
       \<and> short_of_candidates {''c1''} [''c2''] swaps pr)"
proof -
  let ?team = "\<lparr>Members =
      [\<lparr>tm_IsActive = True, tm_UserId = ''c1'', tm_Username = ''Cy''\<rparr>,
       \<lparr>tm_IsActive = True, tm_UserId = ''c2'', tm_Username = ''Di''\<rparr>,
       \<lparr>tm_IsActive = False, tm_UserId = ''c3'', tm_Username = ''Ed''\<rparr>],
      team_TeamName = ''core''\<rparr>"
  let ?qa = "\<lparr>AssignedReviewers = [''c1''], AuthorId = ''c3'', CreatedAt = Some 2,
               MergedAt = None, PullRequestId = ''qa'', PullRequestName = ''A'',
               Status = ''OPEN''\<rparr>"
  let ?qb = "\<lparr>AssignedReviewers = [''c1'', ''c2''], AuthorId = ''c3'', CreatedAt = Some 1,
               MergedAt = None, PullRequestId = ''qb'', PullRequestName = ''B'',
               Status = ''OPEN''\<rparr>"
  let ?sw = "\<lparr>sw_PullRequestId = ''qa'', sw_OldUserId = ''c1'', sw_NewUserId = ''c2''\<rparr>"
  let ?ra = "\<lparr>ra_PullRequestId = ''qa'',
                Replacements = [\<lparr>rr_OldUserId = ''c1'', rr_NewUserId = ''c2''\<rparr>]\<rparr>"
  let ?um = "NewUserManager (Some Storage_users) :: Storage UserManager"
  have h1: "TrimSpace ''core'' \<noteq> []" by code_simp
  have h2: "normalizeTargetUserIDs [''c1''] = Inr ([''c1''], {''c1''})"
    by code_simp
  have h3: "GetTeam [] ?um (TrimSpace ''core'') ex_store2 = Inr ?team"
    by code_simp
  have h4: "ensureTargetsInTeam [''c1''] (Members ?team) = None"
    by code_simp
  have h5: "repo_FindOpenPullRequestsByReviewers (prm_repo prManager) [''c1''] ex_store2
       = Inr [?qa, ?qb]"
    by code_simp
  have h6: "[''c2''] = collectReplacementCandidates (Members ?team) {''c1''}"
    by code_simp
  have sp: "[?qa, ?qb] = [?qa] @ ?qb # []" by simp
  have p: "plan_prs [?qa] {''c1''} (newReviewerPool [''c2'']) ([], [], [])
             = Inr ([?sw], [?ra], [''c2''])"
    by code_simp
  have sh: "short_of_candidates {''c1''} [''c2''] [?sw] ?qb"
    by (simp add: short_of_candidates_def remaining_candidates_def)
  note t = BulkDeactivate_all_or_nothing [OF h1 h2 h3 h4 h5 h6]
  from t have "[?qa, ?qb] = [?qa] @ ?qb # []
          \<and> plan_prs [?qa] {''c1''} (newReviewerPool [''c2'']) ([], [], []) = Inr ([?sw], [?ra], [''c2''])
          \<and> short_of_candidates {''c1''} [''c2''] [?sw] ?qb \<longrightarrow>
            BulkDeactivateTeamMembers [] prManager ''core'' [''c1''] (?um, ex_store2)
              = (Inl (NewNoCandidateError (PullRequestId ?qb)), ?um, ex_store2)
          \<and> (\<forall>f. BulkDeactivateTeamMembers []
                 (prManager\<lparr>prm_repo := (prm_repo prManager)\<lparr>repo_ApplyBulkTeamReviewerSwaps := f\<rparr>\<rparr>)
                 ''core'' [''c1''] (?um, ex_store2)
                = (Inl (NewNoCandidateError (PullRequestId ?qb)), ?um, ex_store2))"
    by (elim conjE allE)
  with sp p sh have c: "BulkDeactivateTeamMembers [] prManager ''core'' [''c1''] (?um, ex_store2)
              = (Inl (NewNoCandidateError (PullRequestId ?qb)), ?um, ex_store2)"
    and d: "\<forall>f. BulkDeactivateTeamMembers []
                 (prManager\<lparr>prm_repo := (prm_repo prManager)\<lparr>repo_ApplyBulkTeamReviewerSwaps := f\<rparr>\<rparr>)
                 ''core'' [''c1''] (?um, ex_store2)
                = (Inl (NewNoCandidateError (PullRequestId ?qb)), ?um, ex_store2)"
    by blast+
  have id: "PullRequestId ?qb = ''qb''" by simp
  from t have e: "errors_Is (NewNoCandidateError ''qb'') ErrNoCandidate" by blast
  have sh0: "short_of_candidates {''c1''} [''c2''] [] ?qb"
    by (simp add: short_of_candidates_def remaining_candidates_def)
  from t have "(\<exists>pr \<in> set [?qa, ?qb]. short_of_candidates {''c1''} [''c2''] [] pr) \<longrightarrow>
            (\<exists>q \<in> set [?qa, ?qb].
               BulkDeactivateTeamMembers [] prManager ''core'' [''c1''] (?um, ex_store2)
                 = (Inl (NewNoCandidateError (PullRequestId q)), ?um, ex_store2)
             \<and> (\<forall>f. BulkDeactivateTeamMembers []
                    (prManager\<lparr>prm_repo := (prm_repo prManager)\<lparr>repo_ApplyBulkTeamReviewerSwaps := f\<rparr>\<rparr>)
                    ''core'' [''c1''] (?um, ex_store2)
                   = (Inl (NewNoCandidateError (PullRequestId q)), ?um, ex_store2)))"
    by (elim conjE)
  moreover have "\<exists>pr \<in> set [?qa, ?qb]. short_of_candidates {''c1''} [''c2''] [] pr"
    using sh0 by simp
  ultimately obtain q where
    q: "q \<in> set [?qa, ?qb]"
       "BulkDeactivateTeamMembers [] prManager ''core'' [''c1''] (?um, ex_store2)
          = (Inl (NewNoCandidateError (PullRequestId q)), ?um, ex_store2)"
    by blast
  from q(1) have "PullRequestId q \<in> {''qa'', ''qb''}" by auto
  with q(2) have f: "\<exists>q \<in> {''qa'', ''qb''}.
         BulkDeactivateTeamMembers [] prManager ''core'' [''c1''] (?um, ex_store2)
         = (Inl (NewNoCandidateError q), ?um, ex_store2)"
    by blast
  have pf: "plan_prs [?qa, ?qb] {''c1''} (newReviewerPool [''c2'']) ([], [], [])
              = Inl (NewNoCandidateError ''qb'')"
    by code_simp
  from t have "\<forall>err. plan_prs [?qa, ?qb] {''c1''} (newReviewerPool [''c2'']) ([], [], []) = Inl err \<longrightarrow>
            (\<exists>done pr rest swaps ras ids.
               [?qa, ?qb] = done @ pr # rest
             \<and> plan_prs done {''c1''} (newReviewerPool [''c2'']) ([], [], [])
                 = Inr (swaps, ras, ids)
             \<and> short_of_candidates {''c1''} [''c2''] swaps pr
             \<and> err = NewNoCandidateError (PullRequestId pr))"
    by (elim conjE)
  with pf obtain done' pr rest swaps ras ids where
    g: "[?qa, ?qb] = done' @ pr # rest"
       "plan_prs done' {''c1''} (newReviewerPool [''c2'']) ([], [], []) = Inr (swaps, ras, ids)"
       "short_of_candidates {''c1''} [''c2''] swaps pr"
       "NewNoCandidateError ''qb'' = NewNoCandidateError (PullRequestId pr)"
    by blast
  from g(4) have "PullRequestId pr = ''qb''"
    by (simp add: NewNoCandidateError_def)
  with g(1,2,3) have k: "\<exists>done pr swaps.
         PullRequestId pr = ''qb''
       \<and> (\<exists>rest. [?qa, ?qb] = done @ pr # rest)
       \<and> (\<exists>ras ids. plan_prs done {''c1''} (newReviewerPool [''c2'']) ([], [], [])
                        = Inr (swaps, ras, ids))
       \<and> short_of_candidates {''c1''} [''c2''] swaps pr"
    by blast
  show ?thesis
    by (intro conjI h5 p sh c [unfolded id] d [unfolded id] e sh0 f pf k)
qed

subsection \<open>When the planner succeeds\<close>

lemma BulkDeactivate_success:
  assumes "BulkDeactivateTeamMembers ord prm teamName0 userIDs (um, s) = (Inr res, um', s')"
  shows "\<exists>team openPRs swaps.
           GetTeam ord um (TrimSpace teamName0) s = Inr team
         \<and> repo_FindOpenPullRequestsByReviewers (prm_repo prm) (normalized_targets userIDs) s
             = Inr openPRs
         \<and> plan_prs openPRs (set (normalized_targets userIDs))
             (newReviewerPool (collectReplacementCandidates (Members team)
                                 (set (normalized_targets userIDs))))
             ([], [], []) = Inr (swaps, Reassignments res, map sw_NewUserId swaps)
         \<and> repo_ApplyBulkTeamReviewerSwaps (prm_repo prm) swaps
             (normalized_targets userIDs @ map sw_NewUserId swaps) s = (None, s')
         \<and> um' = SyncUsersActivity um (normalized_targets userIDs @ map sw_NewUserId swaps) False
         \<and> res_TeamName res = TrimSpace teamName0
         \<and> Deactivated res = normalized_targets userIDs
         \<and> concat (map swaps_of_reassignment (Reassignments res)) = swaps
         \<and> (\<forall>ra \<in> set (Reassignments res). Replacements ra \<noteq> [])
         \<and> map (\<lambda>x. (sw_PullRequestId x, sw_OldUserId x)) swaps
             = targeted_slots (set (normalized_targets userIDs)) openPRs"
proof -
  from assms obtain targets targetSet where
    norm: "normalizeTargetUserIDs userIDs = Inr (targets, targetSet)"
    by (auto simp: BulkDeactivateTeamMembers_def Let_def split: if_splits sum.splits)
  from normalizeTargetUserIDs_Inr [OF norm]
  have t: "targets = normalized_targets userIDs" "targetSet = set targets" "targets \<noteq> []"
          "userIDs \<noteq> []"
    by blast+
  from assms norm obtain team where
    team: "GetTeam ord um (TrimSpace teamName0) s = Inr team"
    by (auto simp: BulkDeactivateTeamMembers_def Let_def split: if_splits sum.splits)
  let ?pool = "newReviewerPool (collectReplacementCandidates (Members team) targetSet)"
  from assms norm team obtain swaps reassignments replacementIDs where
    plan: "planBulkReviewerSwaps prm targets targetSet ?pool s
             = Inr (swaps, reassignments, replacementIDs)"
    by (auto simp: BulkDeactivateTeamMembers_def Let_def
             split: if_splits sum.splits option.splits)
  then obtain openPRs where
    find: "repo_FindOpenPullRequestsByReviewers (prm_repo prm) targets s = Inr openPRs"
    and prs: "plan_prs openPRs targetSet ?pool ([], [], []) = Inr (swaps, reassignments, replacementIDs)"
    by (auto simp: planBulkReviewerSwaps_def split: sum.splits)
  from plan_prs_Inr [OF prs] have
    shape: "replacementIDs = map sw_NewUserId swaps"
           "concat (map swaps_of_reassignment reassignments) = swaps"
           "\<forall>ra \<in> set reassignments. Replacements ra \<noteq> []"
           "map (\<lambda>x. (sw_PullRequestId x, sw_OldUserId x)) swaps = targeted_slots targetSet openPRs"
    by auto
  from assms norm team plan t have
    fin: "repo_ApplyBulkTeamReviewerSwaps (prm_repo prm) swaps (targets @ replacementIDs) s
            = (None, s')"
         "um' = SyncUsersActivity um (targets @ replacementIDs) False"
         "res = \<lparr>res_TeamName = TrimSpace teamName0, Deactivated = targets,
                 Reassignments = reassignments\<rparr>"
    by (auto simp: BulkDeactivateTeamMembers_def Let_def
             split: if_splits sum.splits option.splits prod.splits)
  show ?thesis
    using team find prs shape fin t
    by (intro exI [of _ team] exI [of _ openPRs] exI [of _ swaps]) simp
qed

text \<open>
  Claim C6. A successful bulk deactivation has made one call of
  \<open>ApplyBulkTeamReviewerSwaps\<close>, on the state it was given, with the planned swaps and with
  the normalised targets followed by the replacement of every swap, in that order. The
  result lists the normalised targets as deactivated; its report, read entry by entry, is
  exactly the list of swaps, no entry is empty, and the swaps cover, in order, every
  targeted reviewer of every open pull request the repository returned. The directory is
  synchronised for the same list of ids.
\<close>

theorem BulkDeactivate_persists_plan:
  assumes "BulkDeactivateTeamMembers ord prm teamName0 userIDs (um, s) = (Inr res, um', s')"
  shows "\<exists>team openPRs swaps.
           GetTeam ord um (TrimSpace teamName0) s = Inr team
         \<and> repo_FindOpenPullRequestsByReviewers (prm_repo prm) (normalized_targets userIDs) s
             = Inr openPRs
         \<and> plan_prs openPRs (set (normalized_targets userIDs))
             (newReviewerPool (collectReplacementCandidates (Members team)
                                 (set (normalized_targets userIDs))))
             ([], [], []) = Inr (swaps, Reassignments res, map sw_NewUserId swaps)
         \<and> repo_ApplyBulkTeamReviewerSwaps (prm_repo prm) swaps
             (normalized_targets userIDs @ map sw_NewUserId swaps) s = (None, s')
         \<and> um' = SyncUsersActivity um (normalized_targets userIDs @ map sw_NewUserId swaps) False
         \<and> res_TeamName res = TrimSpace teamName0
         \<and> Deactivated res = normalized_targets userIDs
         \<and> concat (map swaps_of_reassignment (Reassignments res)) = swaps
         \<and> (\<forall>ra \<in> set (Reassignments res). Replacements ra \<noteq> [])
         \<and> map (\<lambda>x. (sw_PullRequestId x, sw_OldUserId x)) swaps
             = targeted_slots (set (normalized_targets userIDs)) openPRs"
  using assms by (rule BulkDeactivate_success)

theorem BulkDeactivate_persists_plan_witness:
  "fst (BulkDeactivateTeamMembers ex_ord prManager ''backend'' [''u1''] (ex_um, ex_store)) =
     Inr \<lparr>res_TeamName = ''backend'', Deactivated = [''u1''],
          Reassignments = [\<lparr>ra_PullRequestId = ''pr-1'',
             Replacements = [\<lparr>rr_OldUserId = ''u1'', rr_NewUserId = ''u2''\<rparr>]\<rparr>]\<rparr>
   \<and> repo_ApplyBulkTeamReviewerSwaps (prm_repo prManager)
        [\<lparr>sw_PullRequestId = ''pr-1'', sw_OldUserId = ''u1'', sw_NewUserId = ''u2''\<rparr>]
        [''u1'', ''u2''] ex_store
      = (None, snd (snd (BulkDeactivateTeamMembers ex_ord prManager ''backend'' [''u1'']
                           (ex_um, ex_store))))"
proof -
  let ?run = "BulkDeactivateTeamMembers ex_ord prManager ''backend'' [''u1''] (ex_um, ex_store)"
  let ?res = "\<lparr>res_TeamName = ''backend'', Deactivated = [''u1''],
          Reassignments = [\<lparr>ra_PullRequestId = ''pr-1'',
             Replacements = [\<lparr>rr_OldUserId = ''u1'', rr_NewUserId = ''u2''\<rparr>]\<rparr>]\<rparr>"
  have a: "fst ?run = Inr ?res" by code_simp
  then have h: "?run = (Inr ?res, fst (snd ?run), snd (snd ?run))"
    by (metis prod.collapse)
  have n: "normalized_targets [''u1''] = [''u1'']" by code_simp
  from BulkDeactivate_persists_plan [OF h] obtain swaps where
    s1: "repo_ApplyBulkTeamReviewerSwaps (prm_repo prManager) swaps
           (normalized_targets [''u1''] @ map sw_NewUserId swaps) ex_store = (None, snd (snd ?run))"
    and s2: "concat (map swaps_of_reassignment (Reassignments ?res)) = swaps"
    by blast
  from s2 have "swaps = [\<lparr>sw_PullRequestId = ''pr-1'', sw_OldUserId = ''u1'', sw_NewUserId = ''u2''\<rparr>]"
    by (simp add: swaps_of_reassignment_def)
  with s1 n have b: "repo_ApplyBulkTeamReviewerSwaps (prm_repo prManager)
        [\<lparr>sw_PullRequestId = ''pr-1'', sw_OldUserId = ''u1'', sw_NewUserId = ''u2''\<rparr>]
        [''u1'', ''u2''] ex_store = (None, snd (snd ?run))"
    by simp
  show ?thesis by (intro conjI a b)
qed

section \<open>Claim on single reassignment\<close>

lemma GetUserTeam_cache_inv:
  "cache_inv (users um) \<Longrightarrow> GetUserTeam um userID s = (r, um1) \<Longrightarrow> cache_inv (users um1)"
  by (auto simp: GetUserTeam_def cache_inv_def split: option.splits sum.splits if_splits)

lemma FindReplacementReviewer_Inr:
  assumes "FindReplacementReviewer ord um teamName excl = Inr n"
  shows "\<exists>k u. users um k = Some u \<and> UserId u = n \<and> TeamName u = teamName \<and> IsActive u
           \<and> n \<notin> set excl"
proof -
  from assms obtain u where
    f: "List.find (\<lambda>user. TeamName user = teamName \<and> IsActive user \<and> UserId user \<notin> set excl)
          (range_users ord (users um)) = Some u" and n: "n = UserId u"
    by (auto simp: FindReplacementReviewer_def Let_def split: option.splits)
  from f have "u \<in> set (range_users ord (users um))"
    and p: "TeamName u = teamName \<and> IsActive u \<and> UserId u \<notin> set excl"
    by (auto simp: find_Some_iff)
  then obtain k where "users um k = Some u"
    by (auto simp: range_users_def map_filter_def)
  with p n show ?thesis by blast
qed

lemma filter_neq_removeAll: "filter (\<lambda>r. r \<noteq> x) xs = removeAll x xs"
  by (induction xs) auto

lemma Reassign_success:
  assumes "repo_GetPullRequest (prm_repo prm) prId s = Inr pr0"
    and "cache_inv (users um)"
    and "Reassign ord prm oldUserId prId (um, s) = (Inr resp, started, um', s')"
  shows "Status pr0 \<noteq> PullRequestStatusMERGED \<and> oldUserId \<in> set (AssignedReviewers pr0)
       \<and> (\<exists>teamName newUser.
              GetUserTeam um oldUserId s = (Inr teamName, um')
            \<and> users um' (ReplacedBy resp) = Some newUser
            \<and> IsActive newUser \<and> TeamName newUser = teamName)
       \<and> ReplacedBy resp \<notin> set (AssignedReviewers pr0) \<and> ReplacedBy resp \<noteq> oldUserId
       \<and> PR resp = pr0\<lparr>AssignedReviewers :=
                         filter (\<lambda>r. r \<noteq> oldUserId) (AssignedReviewers pr0) @ [ReplacedBy resp]\<rparr>
       \<and> set (AssignedReviewers (PR resp))
           = set (AssignedReviewers pr0) - {oldUserId} \<union> {ReplacedBy resp}
       \<and> card (set (AssignedReviewers (PR resp))) = card (set (AssignedReviewers pr0))
       \<and> (distinct (AssignedReviewers pr0) \<longrightarrow>
             length (AssignedReviewers (PR resp)) = length (AssignedReviewers pr0)
           \<and> distinct (AssignedReviewers (PR resp)))
       \<and> repo_SavePullRequest (prm_repo prm) (PR resp) s = (None, s')"
proof -
  from assms(1,3) have st: "Status pr0 \<noteq> PullRequestStatusMERGED"
    and old: "oldUserId \<in> set (AssignedReviewers pr0)"
    by (auto simp: Reassign_def split: if_splits)
  from assms(1,3) st old obtain teamName um1 where
    team: "GetUserTeam um oldUserId s = (Inr teamName, um1)"
    by (auto simp: Reassign_def split: if_splits sum.splits prod.splits)
  from assms(1,3) st old team obtain n where
    find: "FindReplacementReviewer ord um1 teamName (AssignedReviewers pr0 @ [oldUserId]) = Inr n"
    by (auto simp: Reassign_def Let_def split: if_splits sum.splits prod.splits)
  let ?new = "filter (\<lambda>r. r \<noteq> oldUserId) (AssignedReviewers pr0) @ [n]"
  from assms(1,3) st old team find have
    fin: "resp = \<lparr>PR = pr0\<lparr>AssignedReviewers := ?new\<rparr>, ReplacedBy = n\<rparr>" "um' = um1"
         "repo_SavePullRequest (prm_repo prm) (pr0\<lparr>AssignedReviewers := ?new\<rparr>) s = (None, s')"
    by (auto simp: Reassign_def Let_def split: if_splits sum.splits prod.splits option.splits)
  from FindReplacementReviewer_Inr [OF find] obtain k u where
    u: "users um1 k = Some u" "UserId u = n" "TeamName u = teamName" "IsActive u"
       "n \<notin> set (AssignedReviewers pr0)" "n \<noteq> oldUserId"
    by auto
  from GetUserTeam_cache_inv [OF assms(2) team] u have k: "k = n"
    by (auto simp: cache_inv_def)
  have sets: "set ?new = set (AssignedReviewers pr0) - {oldUserId} \<union> {n}"
    by auto
  have "card (set ?new) = card (set (AssignedReviewers pr0))"
  proof -
    have "card (insert n (set (AssignedReviewers pr0) - {oldUserId}))
          = Suc (card (set (AssignedReviewers pr0) - {oldUserId}))"
      using u(5) by (intro card_insert_disjoint) auto
    also have "\<dots> = card (set (AssignedReviewers pr0))"
      using old by (intro card_Suc_Diff1) auto
    finally show ?thesis using sets by simp
  qed
  moreover have "distinct (AssignedReviewers pr0) \<longrightarrow>
      length ?new = length (AssignedReviewers pr0) \<and> distinct ?new"
  proof
    assume d: "distinct (AssignedReviewers pr0)"
    from d old have "length (filter (\<lambda>r. r \<noteq> oldUserId) (AssignedReviewers pr0))
               = length (AssignedReviewers pr0) - 1"
      by (simp add: filter_neq_removeAll distinct_remove1_removeAll [symmetric] length_remove1)
    moreover have "length (AssignedReviewers pr0) > 0" using old by (cases "AssignedReviewers pr0") auto
    ultimately show "length ?new = length (AssignedReviewers pr0) \<and> distinct ?new"
      using d u(5) by auto
  qed
  ultimately show ?thesis
    using st old team fin u k sets by auto
qed

text \<open>
  Claim C3. A successful \<open>Reassign\<close> on a pull request that the repository returned:
  the pull request was not merged and the old reviewer was on it; the new list is the old
  one without the old reviewer, followed by one new id; as a set it is the old set minus
  the old reviewer plus the new id, of the same size; when the old list had no repetition
  the new list has the same length and no repetition. The new id was not on the pull
  request and is not the old reviewer; in the directory it is an active user whose team is
  the team the directory reports for the old reviewer. The pull request returned is the
  one saved.
\<close>

theorem Reassign_replaces_one:
  assumes "repo_GetPullRequest (prm_repo prm) prId s = Inr pr0"
    and "cache_inv (users um)"
    and "Reassign ord prm oldUserId prId (um, s) = (Inr resp, started, um', s')"
  shows "Status pr0 \<noteq> PullRequestStatusMERGED \<and> oldUserId \<in> set (AssignedReviewers pr0)
       \<and> (\<exists>teamName newUser.
              GetUserTeam um oldUserId s = (Inr teamName, um')
            \<and> users um' (ReplacedBy resp) = Some newUser
            \<and> IsActive newUser \<and> TeamName newUser = teamName)
       \<and> ReplacedBy resp \<notin> set (AssignedReviewers pr0) \<and> ReplacedBy resp \<noteq> oldUserId
       \<and> PR resp = pr0\<lparr>AssignedReviewers :=
                         filter (\<lambda>r. r \<noteq> oldUserId) (AssignedReviewers pr0) @ [ReplacedBy resp]\<rparr>
       \<and> set (AssignedReviewers (PR resp))
           = set (AssignedReviewers pr0) - {oldUserId} \<union> {ReplacedBy resp}
       \<and> card (set (AssignedReviewers (PR resp))) = card (set (AssignedReviewers pr0))
       \<and> (distinct (AssignedReviewers pr0) \<longrightarrow>
             length (AssignedReviewers (PR resp)) = length (AssignedReviewers pr0)
           \<and> distinct (AssignedReviewers (PR resp)))
       \<and> repo_SavePullRequest (prm_repo prm) (PR resp) s = (None, s')"
  using assms by (rule Reassign_success)

theorem Reassign_replaces_one_witness:
  "repo_GetPullRequest (prm_repo prManager) ''pr-1'' ex_store
     = Inr \<lparr>AssignedReviewers = [''u1'', ''u4''], AuthorId = ''u2'', CreatedAt = Some 1,
            MergedAt = None, PullRequestId = ''pr-1'', PullRequestName = ''Fix'',
            Status = ''OPEN''\<rparr>
   \<and> cache_inv (users ex_um)
   \<and> fst (Reassign ex_ord prManager ''u1'' ''pr-1'' (ex_um, ex_store))
       = Inr \<lparr>PR = \<lparr>AssignedReviewers = [''u4'', ''u2''], AuthorId = ''u2'', CreatedAt = Some 1,
                    MergedAt = None, PullRequestId = ''pr-1'', PullRequestName = ''Fix'',
                    Status = ''OPEN''\<rparr>,
              ReplacedBy = ''u2''\<rparr>
   \<and> card (set [''u4'', ''u2'']) = card (set [''u1'', ''u4''])
   \<and> (\<exists>newUser. users (fst (snd (snd (Reassign ex_ord prManager ''u1'' ''pr-1'' (ex_um, ex_store)))))
                     ''u2'' = Some newUser \<and> IsActive newUser \<and> TeamName newUser = ''backend'')"
proof -
  let ?pr0 = "\<lparr>AssignedReviewers = [''u1'', ''u4''], AuthorId = ''u2'', CreatedAt = Some 1,
            MergedAt = None, PullRequestId = ''pr-1'', PullRequestName = ''Fix'',
            Status = ''OPEN''\<rparr>"
  let ?resp = "\<lparr>PR = \<lparr>AssignedReviewers = [''u4'', ''u2''], AuthorId = ''u2'', CreatedAt = Some 1,
                    MergedAt = None, PullRequestId = ''pr-1'', PullRequestName = ''Fix'',
                    Status = ''OPEN''\<rparr>,
              ReplacedBy = ''u2''\<rparr>"
  let ?run = "Reassign ex_ord prManager ''u1'' ''pr-1'' (ex_um, ex_store)"
  have h1: "repo_GetPullRequest (prm_repo prManager) ''pr-1'' ex_store = Inr ?pr0"
    by code_simp
  have h2: "cache_inv (users ex_um)"
    by (auto simp: cache_inv_def ex_um_def ex_cache_def split: if_splits)
  have a: "fst ?run = Inr ?resp"
    by code_simp
  then have h3: "?run = (Inr ?resp, fst (snd ?run), fst (snd (snd ?run)), snd (snd (snd ?run)))"
    by (metis prod.collapse)
  have g: "fst (GetUserTeam ex_um ''u1'' ex_store) = Inr ''backend''"
    by code_simp
  note t = Reassign_replaces_one [OF h1 h2 h3]
  from t have "card (set (AssignedReviewers (PR ?resp))) = card (set (AssignedReviewers ?pr0))"
    by blast
  then have c: "card (set [''u4'', ''u2'']) = card (set [''u1'', ''u4''])"
    by simp
  from t obtain teamName newUser where
    e: "GetUserTeam ex_um ''u1'' ex_store = (Inr teamName, fst (snd (snd ?run)))"
       "users (fst (snd (snd ?run))) (ReplacedBy ?resp) = Some newUser"
       "IsActive newUser" "TeamName newUser = teamName"
    by blast
  from e(1) g have "teamName = ''backend''" by simp
  with e have d: "\<exists>newUser. users (fst (snd (snd ?run))) ''u2'' = Some newUser
                      \<and> IsActive newUser \<and> TeamName newUser = ''backend''"
    by simp
  show ?thesis by (intro conjI h1 h2 a c d)
qed

section \<open>Properties of the database tables\<close>

lemma map_of_upsert: "map_of (upsert k v rows) = (map_of rows)(k \<mapsto> v)"
  by (induction rows) (auto simp: fun_eq_iff)

lemma map_fst_upsert:
  "map fst (upsert k v rows) = (if k \<in> fst ` set rows then map fst rows else map fst rows @ [k])"
  by (induction rows) force+

lemma keys_upsert: "fst ` set (upsert k v rows) = insert k (fst ` set rows)"
proof -
  have "set (map fst (upsert k v rows)) = insert k (set (map fst rows))"
    unfolding map_fst_upsert by auto
  then show ?thesis by simp
qed

lemma distinct_upsert: "distinct (map fst rows) \<Longrightarrow> distinct (map fst (upsert k v rows))"
  by (simp add: map_fst_upsert)

lemma insert_reviewer_row_Inr:
  "insert_reviewer_row r st = Inr st' \<Longrightarrow>
   st' = st\<lparr>pull_request_reviewers := pull_request_reviewers st @ [r]\<rparr>
   \<and> r \<notin> set (pull_request_reviewers st)
   \<and> fst r \<in> fst ` set (pull_requests st) \<and> snd r \<in> fst ` set (users_tbl st)"
  by (auto simp: insert_reviewer_row_def split: if_splits)

lemma insert_reviewers_Inr:
  "insert_reviewers prID rs seen st = Inr st' \<Longrightarrow>
   \<exists>new. st' = st\<lparr>pull_request_reviewers := pull_request_reviewers st @ map (Pair prID) new\<rparr>
        \<and> distinct new \<and> set new \<inter> seen = {} \<and> set new \<subseteq> set rs
        \<and> length new \<le> length rs
        \<and> (\<forall>u \<in> set new. (prID, u) \<notin> set (pull_request_reviewers st))"
proof (induction rs arbitrary: seen st)
  case Nil
  then show ?case by (intro exI [of _ "[]"]) simp
next
  case (Cons r rs)
  show ?case
  proof (cases "r = [] \<or> r \<in> seen")
    case True
    with Cons.prems have "insert_reviewers prID rs seen st = Inr st'"
      by (cases "r = []") simp_all
    from Cons.IH [OF this] obtain new where
      "st' = st\<lparr>pull_request_reviewers := pull_request_reviewers st @ map (Pair prID) new\<rparr>"
      "distinct new" "set new \<inter> seen = {}" "set new \<subseteq> set rs" "length new \<le> length rs"
      "\<forall>u \<in> set new. (prID, u) \<notin> set (pull_request_reviewers st)"
      by blast
    then show ?thesis by (intro exI [of _ new]) auto
  next
    case False
    with Cons.prems obtain st1 where
      row: "insert_reviewer_row (prID, r) st = Inr st1"
      and rest: "insert_reviewers prID rs (insert r seen) st1 = Inr st'"
      by (auto split: sum.splits)
    from insert_reviewer_row_Inr [OF row] have
      st1: "st1 = st\<lparr>pull_request_reviewers := pull_request_reviewers st @ [(prID, r)]\<rparr>"
      and fresh: "(prID, r) \<notin> set (pull_request_reviewers st)"
      by simp_all
    from Cons.IH [OF rest] obtain new where
      new: "st' = st1\<lparr>pull_request_reviewers := pull_request_reviewers st1 @ map (Pair prID) new\<rparr>"
      "distinct new" "set new \<inter> insert r seen = {}" "set new \<subseteq> set rs"
      "length new \<le> length rs"
      "\<forall>u \<in> set new. (prID, u) \<notin> set (pull_request_reviewers st1)"
      by blast
    show ?thesis
      using new st1 fresh False by (intro exI [of _ "r # new"]) auto
  qed
qed

lemma Storage_SavePullRequest_None:
  assumes "Storage_SavePullRequest pr st = (None, st')"
  shows "length (AssignedReviewers pr) \<le> 2 \<and> AuthorId pr \<in> fst ` set (users_tbl st)
    \<and> (\<exists>new. distinct new \<and> set new \<subseteq> set (AssignedReviewers pr)
          \<and> length new \<le> length (AssignedReviewers pr)
          \<and> st' = st\<lparr>pull_requests :=
                        upsert (PullRequestId pr)
                          \<lparr>col_pull_request_name = PullRequestName pr,
                           col_author_id = AuthorId pr, col_status = Status pr,
                           col_created_at = CreatedAt pr, col_merged_at = MergedAt pr\<rparr>
                          (pull_requests st),
                      pull_request_reviewers :=
                        filter (\<lambda>r. fst r \<noteq> PullRequestId pr) (pull_request_reviewers st)
                          @ map (Pair (PullRequestId pr)) new\<rparr>)"
proof -
  let ?row = "\<lparr>col_pull_request_name = PullRequestName pr,
                           col_author_id = AuthorId pr, col_status = Status pr,
                           col_created_at = CreatedAt pr, col_merged_at = MergedAt pr\<rparr>"
  let ?st2 = "st\<lparr>pull_requests := upsert (PullRequestId pr) ?row (pull_requests st),
                 pull_request_reviewers :=
                   filter (\<lambda>r. fst r \<noteq> PullRequestId pr) (pull_request_reviewers st)\<rparr>"
  from assms have len: "length (AssignedReviewers pr) \<le> 2"
    and au: "AuthorId pr \<in> fst ` set (users_tbl st)"
    by (auto simp: Storage_SavePullRequest_def split: if_splits)
  with assms have "insert_reviewers (PullRequestId pr) (AssignedReviewers pr) {} ?st2 = Inr st'"
    by (auto simp: Storage_SavePullRequest_def Let_def split: if_splits sum.splits)
  from insert_reviewers_Inr [OF this] obtain new where
    "st' = ?st2\<lparr>pull_request_reviewers := pull_request_reviewers ?st2 @ map (Pair (PullRequestId pr)) new\<rparr>"
    "distinct new" "set new \<subseteq> set (AssignedReviewers pr)"
    "length new \<le> length (AssignedReviewers pr)"
    by blast
  with len au show ?thesis by (intro conjI exI [of _ new]) simp_all
qed

lemma Storage_GetPullRequest_after_save:
  assumes "Storage_SavePullRequest pr st = (None, st')"
  shows "\<exists>pr'. Storage_GetPullRequest (PullRequestId pr) st' = Inr pr'
           \<and> pr'\<lparr>AssignedReviewers := []\<rparr> = pr\<lparr>AssignedReviewers := []\<rparr>"
proof -
  from Storage_SavePullRequest_None [OF assms]
  have "map_of (pull_requests st') (PullRequestId pr) =
        Some \<lparr>col_pull_request_name = PullRequestName pr,
              col_author_id = AuthorId pr, col_status = Status pr,
              col_created_at = CreatedAt pr, col_merged_at = MergedAt pr\<rparr>"
    by (auto simp: map_of_upsert)
  then show ?thesis
    by (simp add: Storage_GetPullRequest_def pr_of_row_def)
qed

lemma Storage_GetPullRequest_id:
  "Storage_GetPullRequest prID st = Inr pr \<Longrightarrow> PullRequestId pr = prID"
  by (auto simp: Storage_GetPullRequest_def pr_of_row_def split: option.splits)

section \<open>Claim on merging\<close>

lemma Merge_unmerged:
  assumes "repo_GetPullRequest (prm_repo prm) prId s = Inr pr0"
    and "Status pr0 \<noteq> PullRequestStatusMERGED"
    and "Merge now prm prId (um, s) = (Inr pr1, started, um1, s1)"
  shows "pr1 = pr0\<lparr>Status := PullRequestStatusMERGED, MergedAt := Some now\<rparr>
       \<and> repo_SavePullRequest (prm_repo prm) pr1 s = (None, s1) \<and> um1 = um"
  using assms
  by (auto simp: Merge_def Let_def split: prod.splits option.splits if_splits)

text \<open>
  Claim C4. \<open>Merge\<close> is idempotent. For any repository: when the stored pull request is
  already \<open>MERGED\<close>, \<open>Merge\<close> returns it as stored with no error, starts no activity
  update, leaves directory and repository state as they were, and its outcome does not
  depend on \<open>SavePullRequest\<close>, which is not called. On the database: after any successful
  \<open>Merge\<close> the returned pull request is \<open>MERGED\<close>; the stored one agrees with it on every
  field but the reviewer list as read back; and every further \<open>Merge\<close> of that id, at any
  time and with any directory, returns the stored pull request, starts nothing and leaves
  the database as the first merge left it.
\<close>

theorem Merge_idempotent:
  "(repo_GetPullRequest (prm_repo prm) prId s = Inr pr \<and> Status pr = PullRequestStatusMERGED
      \<longrightarrow> Merge now prm prId (um, s) = (Inr pr, [], um, s)
        \<and> (\<forall>f. Merge now (prm\<lparr>prm_repo := (prm_repo prm)\<lparr>repo_SavePullRequest := f\<rparr>\<rparr>)
                  prId (um, s) = (Inr pr, [], um, s)))
   \<and> (Merge now prManager prId (dir, st) = (Inr pr1, started, dir1, st1)
      \<longrightarrow> Status pr1 = PullRequestStatusMERGED
        \<and> (\<exists>pr2. Storage_GetPullRequest prId st1 = Inr pr2
              \<and> pr2\<lparr>AssignedReviewers := []\<rparr> = pr1\<lparr>AssignedReviewers := []\<rparr>
              \<and> (\<forall>now' dir'. Merge now' prManager prId (dir', st1) = (Inr pr2, [], dir', st1))))"
proof (intro conjI impI)
  assume "repo_GetPullRequest (prm_repo prm) prId s = Inr pr \<and> Status pr = PullRequestStatusMERGED"
  then show "Merge now prm prId (um, s) = (Inr pr, [], um, s)"
    by (simp add: Merge_def)
next
  assume "repo_GetPullRequest (prm_repo prm) prId s = Inr pr \<and> Status pr = PullRequestStatusMERGED"
  then show "\<forall>f. Merge now (prm\<lparr>prm_repo := (prm_repo prm)\<lparr>repo_SavePullRequest := f\<rparr>\<rparr>)
                  prId (um, s) = (Inr pr, [], um, s)"
    by (simp add: Merge_def)
next
  assume m: "Merge now prManager prId (dir, st) = (Inr pr1, started, dir1, st1)"
  then obtain pr0 where get: "Storage_GetPullRequest prId st = Inr pr0"
    by (auto simp: Merge_def prManager_def Storage_prs_def split: sum.splits if_splits)
  then have get': "repo_GetPullRequest (prm_repo prManager) prId st = Inr pr0"
    by (simp add: prManager_def Storage_prs_def)
  show "Status pr1 = PullRequestStatusMERGED"
  proof (cases "Status pr0 = PullRequestStatusMERGED")
    case True
    with m get' show ?thesis by (simp add: Merge_def)
  next
    case False
    from Merge_unmerged [OF get' False m] show ?thesis by simp
  qed
next
  assume m: "Merge now prManager prId (dir, st) = (Inr pr1, started, dir1, st1)"
  then obtain pr0 where get: "Storage_GetPullRequest prId st = Inr pr0"
    by (auto simp: Merge_def prManager_def Storage_prs_def split: sum.splits if_splits)
  have "\<exists>pr2. Storage_GetPullRequest prId st1 = Inr pr2
          \<and> pr2\<lparr>AssignedReviewers := []\<rparr> = pr1\<lparr>AssignedReviewers := []\<rparr>
          \<and> Status pr2 = PullRequestStatusMERGED"
  proof (cases "Status pr0 = PullRequestStatusMERGED")
    case True
    with m get have "pr1 = pr0" "st1 = st"
      by (auto simp: Merge_def prManager_def Storage_prs_def)
    with get True show ?thesis by simp
  next
    case False
    let ?pr = "pr0\<lparr>Status := PullRequestStatusMERGED, MergedAt := Some now\<rparr>"
    from get have get': "repo_GetPullRequest (prm_repo prManager) prId st = Inr pr0"
      by (simp add: prManager_def Storage_prs_def)
    from Merge_unmerged [OF get' False m]
    have sv: "Storage_SavePullRequest ?pr st = (None, st1)" and p: "pr1 = ?pr"
      by (auto simp: prManager_def Storage_prs_def)
    from Storage_GetPullRequest_after_save [OF sv] Storage_GetPullRequest_id [OF get] p
    obtain pr2 where "Storage_GetPullRequest prId st1 = Inr pr2"
       "pr2\<lparr>AssignedReviewers := []\<rparr> = pr1\<lparr>AssignedReviewers := []\<rparr>"
      by auto
    moreover from this(2) have "Status (pr2\<lparr>AssignedReviewers := []\<rparr>)
        = Status (pr1\<lparr>AssignedReviewers := []\<rparr>)"
      by (rule arg_cong)
    with p have "Status pr2 = PullRequestStatusMERGED"
      by simp
    ultimately show ?thesis by blast
  qed
  then obtain pr2 where
    pr2: "Storage_GetPullRequest prId st1 = Inr pr2"
         "pr2\<lparr>AssignedReviewers := []\<rparr> = pr1\<lparr>AssignedReviewers := []\<rparr>"
         "Status pr2 = PullRequestStatusMERGED"
    by blast
  have "\<forall>now' dir'. Merge now' prManager prId (dir', st1) = (Inr pr2, [], dir', st1)"
    using pr2 by (simp add: Merge_def prManager_def Storage_prs_def)
  with pr2 show "\<exists>pr2. Storage_GetPullRequest prId st1 = Inr pr2
              \<and> pr2\<lparr>AssignedReviewers := []\<rparr> = pr1\<lparr>AssignedReviewers := []\<rparr>
              \<and> (\<forall>now' dir'. Merge now' prManager prId (dir', st1) = (Inr pr2, [], dir', st1))"
    by blast
qed

theorem Merge_idempotent_witness:
  "fst (Merge 7 prManager ''pr-1'' (ex_um, ex_store))
     = Inr \<lparr>AssignedReviewers = [''u1'', ''u4''], AuthorId = ''u2'', CreatedAt = Some 1,
            MergedAt = Some 7, PullRequestId = ''pr-1'', PullRequestName = ''Fix'',
            Status = ''MERGED''\<rparr>
   \<and> Merge 9 prManager ''pr-1''
        (ex_um, snd (snd (snd (Merge 7 prManager ''pr-1'' (ex_um, ex_store)))))
     = (Inr \<lparr>AssignedReviewers = [''u1'', ''u4''], AuthorId = ''u2'', CreatedAt = Some 1,
             MergedAt = Some 7, PullRequestId = ''pr-1'', PullRequestName = ''Fix'',
             Status = ''MERGED''\<rparr>,
        [], ex_um, snd (snd (snd (Merge 7 prManager ''pr-1'' (ex_um, ex_store)))))
   \<and> (\<forall>now'. snd (Merge now' prManager ''pr-1''
                      (ex_um, snd (snd (snd (Merge 7 prManager ''pr-1'' (ex_um, ex_store))))))
              = ([], ex_um, snd (snd (snd (Merge 7 prManager ''pr-1'' (ex_um, ex_store))))))"
proof -
  let ?pr1 = "\<lparr>AssignedReviewers = [''u1'', ''u4''], AuthorId = ''u2'', CreatedAt = Some 1,
            MergedAt = Some 7, PullRequestId = ''pr-1'', PullRequestName = ''Fix'',
            Status = ''MERGED''\<rparr>"
  let ?run = "Merge 7 prManager ''pr-1'' (ex_um, ex_store)"
  let ?st1 = "snd (snd (snd ?run))"
  have a: "fst ?run = Inr ?pr1" by code_simp
  then have h: "?run = (Inr ?pr1, fst (snd ?run), fst (snd (snd ?run)), ?st1)"
    by (metis prod.collapse)
  have g: "repo_GetPullRequest (prm_repo prManager) ''pr-1'' ?st1 = Inr ?pr1"
    by code_simp
  have m: "Status ?pr1 = PullRequestStatusMERGED"
    by (simp add: PullRequestStatusMERGED_def)
  note t = Merge_idempotent [where prm = prManager and prId = "''pr-1''" and s = ?st1
      and pr = ?pr1 and now = 9 and um = ex_um and dir = ex_um and st = ex_store
      and ?pr1.0 = ?pr1 and started = "fst (snd ?run)" and ?dir1.0 = "fst (snd (snd ?run))"
      and ?st1.0 = ?st1]
  from t g m have b: "Merge 9 prManager ''pr-1'' (ex_um, ?st1) = (Inr ?pr1, [], ex_um, ?st1)"
    by blast
  note t2 = Merge_idempotent [where prm = prManager and prId = "''pr-1''" and s = ?st1
      and pr = ?pr1 and now = 7 and um = ex_um and dir = ex_um and st = ex_store
      and ?pr1.0 = ?pr1 and started = "fst (snd ?run)" and ?dir1.0 = "fst (snd (snd ?run))"
      and ?st1.0 = ?st1]
  from t2 h obtain pr2 where
    "\<forall>now' dir'. Merge now' prManager ''pr-1'' (dir', ?st1) = (Inr pr2, [], dir', ?st1)"
    by blast
  then have c: "\<forall>now'. snd (Merge now' prManager ''pr-1'' (ex_um, ?st1)) = ([], ex_um, ?st1)"
    by simp
  show ?thesis by (intro conjI a b c)
qed

section \<open>Claim on bulk deactivation without open pull requests\<close>

lemma ensureTargetsInTeam_loop_None:
  "ensureTargetsInTeam_loop targets memberSet = None \<longleftrightarrow> set targets \<subseteq> memberSet"
  by (induction targets) auto

lemma ensureTargetsInTeam_None:
  "ensureTargetsInTeam targets members = None \<longleftrightarrow> set targets \<subseteq> tm_UserId ` set members"
  by (simp add: ensureTargetsInTeam_def ensureTargetsInTeam_loop_None)

lemma empty_notin_normalized_targets: "[] \<notin> set (normalized_targets userIDs)"
  by (simp add: normalized_targets_def set_first_occurrences)

lemma filter_nonempty_id: "[] \<notin> set xs \<Longrightarrow> filter (\<lambda>uid. uid \<noteq> []) xs = xs"
  by (induction xs) auto

lemma Storage_FindOpen_none:
  assumes "targets \<noteq> []" and "[] \<notin> set targets"
    and "\<forall>r \<in> set (pull_requests st).
           col_status (snd r) = ''OPEN'' \<longrightarrow> set (reviewers_of st (fst r)) \<inter> set targets = {}"
  shows "Storage_FindOpenPullRequestsByReviewers targets st = Inr []"
proof -
  have "filter (\<lambda>r. col_status (snd r) = ''OPEN''
                     \<and> set (reviewers_of st (fst r)) \<inter> set targets \<noteq> {}) (pull_requests st) = []"
    using assms(3) by (auto simp: filter_empty_conv)
  then show ?thesis
    using assms(1,2)
    by (simp add: Storage_FindOpenPullRequestsByReviewers_def Let_def filter_nonempty_id
          order_by_created_at_desc_def)
qed

lemma Storage_ApplyBulk_no_swaps:
  assumes "targets \<noteq> []" and "[] \<notin> set targets"
  shows "Storage_ApplyBulkTeamReviewerSwaps [] targets st =
     (None, st\<lparr>users_tbl :=
                 map (\<lambda>r. if fst r \<in> set targets then (fst r, (snd r)\<lparr>col_is_active := False\<rparr>)
                          else r) (users_tbl st)\<rparr>)"
  using assms
  by (simp add: Storage_ApplyBulkTeamReviewerSwaps_def deactivateUsersTx_def Let_def
        filter_nonempty_id)

text \<open>
  Claim C10. On the database, with a team that is found and holds every normalised target:
  when no open pull request has a target among its reviewers, the planner returns no swap,
  no report entry and no replacement; \<open>ApplyBulkTeamReviewerSwaps\<close> is called with the
  empty swap list and exactly the normalised targets and succeeds, setting \<open>is_active\<close> to
  false for those users and nothing else; and the operation returns the targets as
  deactivated with an empty reassignment list.
\<close>

theorem BulkDeactivate_without_open_prs:
  assumes "TrimSpace teamName0 \<noteq> []"
    and "normalized_targets userIDs \<noteq> []"
    and "GetTeam ord um (TrimSpace teamName0) st = Inr team"
    and "set (normalized_targets userIDs) \<subseteq> tm_UserId ` set (Members team)"
    and "\<forall>r \<in> set (pull_requests st).
           col_status (snd r) = ''OPEN'' \<longrightarrow>
             set (reviewers_of st (fst r)) \<inter> set (normalized_targets userIDs) = {}"
  shows "BulkDeactivateTeamMembers ord prManager teamName0 userIDs (um, st) =
           (Inr \<lparr>res_TeamName = TrimSpace teamName0, Deactivated = normalized_targets userIDs,
                 Reassignments = []\<rparr>,
            SyncUsersActivity um (normalized_targets userIDs) False,
            snd (Storage_ApplyBulkTeamReviewerSwaps [] (normalized_targets userIDs) st))
       \<and> Storage_ApplyBulkTeamReviewerSwaps [] (normalized_targets userIDs) st =
           (None, st\<lparr>users_tbl :=
                       map (\<lambda>r. if fst r \<in> set (normalized_targets userIDs)
                                then (fst r, (snd r)\<lparr>col_is_active := False\<rparr>) else r)
                         (users_tbl st)\<rparr>)
       \<and> planBulkReviewerSwaps prManager (normalized_targets userIDs)
            (set (normalized_targets userIDs))
            (newReviewerPool (collectReplacementCandidates (Members team)
                                (set (normalized_targets userIDs)))) st
           = Inr ([], [], [])"
proof -
  let ?T = "normalized_targets userIDs"
  note ne = empty_notin_normalized_targets [of userIDs]
  have norm: "normalizeTargetUserIDs userIDs = Inr (?T, set ?T)"
    using assms(2) by (simp add: normalizeTargetUserIDs_eq)
  from assms(2) have ids: "userIDs \<noteq> []"
    by (auto simp: normalized_targets_def)
  have ens: "ensureTargetsInTeam ?T (Members team) = None"
    using assms(4) by (simp add: ensureTargetsInTeam_None)
  have find: "repo_FindOpenPullRequestsByReviewers (prm_repo prManager) ?T st = Inr []"
    using Storage_FindOpen_none [OF assms(2) ne assms(5)]
    by (simp add: prManager_def Storage_prs_def)
  then have plan: "planBulkReviewerSwaps prManager ?T (set ?T)
            (newReviewerPool (collectReplacementCandidates (Members team) (set ?T))) st
           = Inr ([], [], [])"
    by (simp add: planBulkReviewerSwaps_def)
  note app = Storage_ApplyBulk_no_swaps [OF assms(2) ne, of st]
  then have app': "repo_ApplyBulkTeamReviewerSwaps (prm_repo prManager) [] ?T st =
      (None, snd (Storage_ApplyBulkTeamReviewerSwaps [] ?T st))"
    by (simp add: prManager_def Storage_prs_def)
  have "BulkDeactivateTeamMembers ord prManager teamName0 userIDs (um, st) =
           (Inr \<lparr>res_TeamName = TrimSpace teamName0, Deactivated = ?T, Reassignments = []\<rparr>,
            SyncUsersActivity um ?T False,
            snd (Storage_ApplyBulkTeamReviewerSwaps [] ?T st))"
    using assms(1,2,3) ids norm ens plan app'
    by (simp add: BulkDeactivateTeamMembers_def Let_def)
  with app plan show ?thesis by blast
qed

theorem BulkDeactivate_without_open_prs_witness:
  "normalized_targets ['' u2'', ''u2''] = [''u2'']
   \<and> BulkDeactivateTeamMembers ex_ord prManager ''backend'' ['' u2'', ''u2''] (ex_um, ex_store)
       = (Inr \<lparr>res_TeamName = ''backend'', Deactivated = [''u2''], Reassignments = []\<rparr>,
          SyncUsersActivity ex_um [''u2''] False,
          ex_store\<lparr>users_tbl :=
            [(''u1'', \<lparr>col_username = ''Ann'', col_is_active = True,
                       col_team_name = Some ''backend''\<rparr>),
             (''u2'', \<lparr>col_username = ''Bob'', col_is_active = False,
                       col_team_name = Some ''backend''\<rparr>),
             (''u4'', \<lparr>col_username = ''Dan'', col_is_active = False,
                       col_team_name = Some ''backend''\<rparr>)]\<rparr>)"
proof -
  let ?team = "\<lparr>Members =
      [\<lparr>tm_IsActive = True, tm_UserId = ''u1'', tm_Username = ''Ann''\<rparr>,
       \<lparr>tm_IsActive = True, tm_UserId = ''u2'', tm_Username = ''Bob''\<rparr>,
       \<lparr>tm_IsActive = False, tm_UserId = ''u4'', tm_Username = ''Dan''\<rparr>],
      team_TeamName = ''backend''\<rparr>"
  let ?st = "ex_store\<lparr>users_tbl :=
            [(''u1'', \<lparr>col_username = ''Ann'', col_is_active = True,
                       col_team_name = Some ''backend''\<rparr>),
             (''u2'', \<lparr>col_username = ''Bob'', col_is_active = False,
                       col_team_name = Some ''backend''\<rparr>),
             (''u4'', \<lparr>col_username = ''Dan'', col_is_active = False,
                       col_team_name = Some ''backend''\<rparr>)]\<rparr>"
  have n: "normalized_targets ['' u2'', ''u2''] = [''u2'']" by code_simp
  have t: "TrimSpace ''backend'' = ''backend''" by code_simp
  have h1: "TrimSpace ''backend'' \<noteq> []" by code_simp
  have h2: "normalized_targets ['' u2'', ''u2''] \<noteq> []" by code_simp
  have h3: "GetTeam ex_ord ex_um (TrimSpace ''backend'') ex_store = Inr ?team" by code_simp
  have h4: "set (normalized_targets ['' u2'', ''u2'']) \<subseteq> tm_UserId ` set (Members ?team)"
    by code_simp
  have h5: "\<forall>r \<in> set (pull_requests ex_store).
           col_status (snd r) = ''OPEN'' \<longrightarrow>
             set (reviewers_of ex_store (fst r)) \<inter> set (normalized_targets ['' u2'', ''u2'']) = {}"
    by code_simp
  have s: "snd (Storage_ApplyBulkTeamReviewerSwaps [] [''u2''] ex_store) = ?st"
    by code_simp
  from BulkDeactivate_without_open_prs [OF h1 h2 h3 h4 h5]
  have "BulkDeactivateTeamMembers ex_ord prManager ''backend'' ['' u2'', ''u2''] (ex_um, ex_store) =
           (Inr \<lparr>res_TeamName = TrimSpace ''backend'',
                 Deactivated = normalized_targets ['' u2'', ''u2''], Reassignments = []\<rparr>,
            SyncUsersActivity ex_um (normalized_targets ['' u2'', ''u2'']) False,
            snd (Storage_ApplyBulkTeamReviewerSwaps [] (normalized_targets ['' u2'', ''u2''])
                   ex_store))"
    by blast
  then have b: "BulkDeactivateTeamMembers ex_ord prManager ''backend'' ['' u2'', ''u2'']
                  (ex_um, ex_store)
       = (Inr \<lparr>res_TeamName = ''backend'', Deactivated = [''u2''], Reassignments = []\<rparr>,
          SyncUsersActivity ex_um [''u2''] False, ?st)"
    unfolding n t s .
  show ?thesis by (intro conjI n b)
qed

section \<open>Claim on the team round trip\<close>

subsection \<open>Adding a team\<close>

lemma AddTeam_validate_None:
  "AddTeam_validate ms i seen = None \<Longrightarrow>
   distinct (map tm_UserId ms) \<and> [] \<notin> tm_UserId ` set ms \<and> tm_UserId ` set ms \<inter> seen = {}"
proof (induction ms arbitrary: i seen)
  case Nil
  then show ?case by simp
next
  case (Cons m ms)
  from Cons.prems have m: "tm_UserId m \<noteq> []" "tm_UserId m \<notin> seen"
    and rest: "AddTeam_validate ms (i + 1) (insert (tm_UserId m) seen) = None"
    by (auto split: if_splits)
  from Cons.IH [OF rest] m show ?case by auto
qed

lemma cache_users_other:
  "k \<notin> UserId ` set us \<Longrightarrow> cache_users us m k = m k"
  by (induction us arbitrary: m) auto

lemma cache_users_member:
  "distinct (map UserId us) \<Longrightarrow> u \<in> set us \<Longrightarrow> cache_users us m (UserId u) = Some u"
proof (induction us arbitrary: m)
  case Nil
  then show ?case by simp
next
  case (Cons v us)
  show ?case
  proof (cases "u = v")
    case True
    with Cons.prems have "UserId v \<notin> UserId ` set us" by auto
    from cache_users_other [OF this] True show ?thesis by simp
  next
    case False
    with Cons.prems Cons.IH show ?thesis by auto
  qed
qed

lemma AddTeam_None:
  assumes "AddTeam um team s = (None, um', s')"
  shows "distinct (map tm_UserId (Members team)) \<and> [] \<notin> tm_UserId ` set (Members team)
       \<and> um' = um\<lparr>users := cache_users (map (\<lambda>m. ConvertTmToUser m (team_TeamName team))
                                            (Members team)) (users um)\<rparr>
       \<and> (case um_repo um of
             None \<Rightarrow> s' = s
           | Some r \<Rightarrow>
               repo_CreateTeamWithMembers r team
                 (map (\<lambda>m. ConvertTmToUser m (team_TeamName team)) (Members team)) s = (None, s'))"
proof -
  from assms have v: "AddTeam_validate (Members team) 0 {} = None"
    by (auto simp: AddTeam_def split: option.splits)
  from AddTeam_validate_None [OF v] have "distinct (map tm_UserId (Members team))"
    "[] \<notin> tm_UserId ` set (Members team)" by simp_all
  moreover from assms v have
    "um' = um\<lparr>users := cache_users (map (\<lambda>m. ConvertTmToUser m (team_TeamName team))
                                            (Members team)) (users um)\<rparr>"
    "case um_repo um of
             None \<Rightarrow> s' = s
           | Some r \<Rightarrow>
               repo_CreateTeamWithMembers r team
                 (map (\<lambda>m. ConvertTmToUser m (team_TeamName team)) (Members team)) s = (None, s')"
    by (auto simp: AddTeam_def Let_def split: option.splits prod.splits)
  ultimately show ?thesis by blast
qed

lemma Convert_roundtrip [simp]:
  "ConvertUserToTeamMember (ConvertTmToUser m teamName) = m"
  by (simp add: ConvertUserToTeamMember_def ConvertTmToUser_def)

subsection \<open>Reading a team back from the cache\<close>

lemma filter_map_filter_keys:
  "\<forall>k \<in> set ord. \<exists>u. m k = Some u \<and> (P u \<longleftrightarrow> Q k) \<Longrightarrow>
   filter P (List.map_filter m ord) = map (\<lambda>k. the (m k)) (filter Q ord)"
  by (induction ord) (auto simp: map_filter_simps)

lemma GetTeam_from_cache_after_AddTeam:
  assumes add: "AddTeam um team s = (None, um', s')"
    and ord: "key_order ord (users um')"
    and ne: "Members team \<noteq> []"
    and fresh: "\<forall>k u. users um k = Some u \<and> TeamName u = team_TeamName team
                  \<longrightarrow> k \<in> tm_UserId ` set (Members team)"
  shows "\<exists>t. GetTeam_from_cache ord um' (team_TeamName team) = Inr t
           \<and> team_TeamName t = team_TeamName team
           \<and> set (Members t) = set (Members team)
           \<and> length (Members t) = length (Members team)"
proof -
  let ?name = "team_TeamName team"
  let ?us = "map (\<lambda>m. ConvertTmToUser m ?name) (Members team)"
  let ?ids = "tm_UserId ` set (Members team)"
  from AddTeam_None [OF add] have d: "distinct (map tm_UserId (Members team))"
    and um': "users um' = cache_users ?us (users um)"
    by simp_all
  have uid: "map UserId ?us = map tm_UserId (Members team)"
    by (simp add: ConvertTmToUser_def comp_def)
  have dus: "distinct (map UserId ?us)" unfolding uid using d .
  have ids: "UserId ` set ?us = ?ids"
    by (auto simp: ConvertTmToUser_def image_iff)
  have at_member: "users um' (tm_UserId mem) = Some (ConvertTmToUser mem ?name)"
    if "mem \<in> set (Members team)" for mem
  proof -
    from that have "ConvertTmToUser mem ?name \<in> set ?us" by simp
    from cache_users_member [OF dus this, of "users um"] show ?thesis
      by (simp add: um' ConvertTmToUser_def)
  qed
  have sub: "?ids \<subseteq> set ord"
  proof
    fix k assume "k \<in> ?ids"
    then obtain mem where "mem \<in> set (Members team)" "k = tm_UserId mem" by auto
    with at_member have "k \<in> dom (users um')" by auto
    with ord show "k \<in> set ord" by (simp add: key_order_def)
  qed
  have keys: "\<forall>k \<in> set ord. \<exists>u. users um' k = Some u \<and> (TeamName u = ?name \<longleftrightarrow> k \<in> ?ids)"
  proof
    fix k assume "k \<in> set ord"
    with ord obtain u where u: "users um' k = Some u" by (auto simp: key_order_def)
    show "\<exists>u. users um' k = Some u \<and> (TeamName u = ?name \<longleftrightarrow> k \<in> ?ids)"
    proof (cases "k \<in> ?ids")
      case True
      then obtain mem where "mem \<in> set (Members team)" "k = tm_UserId mem" by auto
      with at_member [of mem] True show ?thesis by (simp add: ConvertTmToUser_def)
    next
      case False
      with ids have "k \<notin> UserId ` set ?us" by simp
      from cache_users_other [OF this, of "users um"] u have "users um k = Some u"
        by (simp add: um')
      with fresh False u show ?thesis by auto
    qed
  qed
  let ?xs = "filter (\<lambda>u. TeamName u = ?name) (range_users ord (users um'))"
  from filter_map_filter_keys [OF keys]
  have xs: "?xs = map (\<lambda>k. the (users um' k)) (filter (\<lambda>k. k \<in> ?ids) ord)"
    by (simp add: range_users_def)
  have mem_of: "ConvertUserToTeamMember (the (users um' k)) \<in> set (Members team)"
    if "k \<in> ?ids" for k
  proof -
    from that obtain mem where "mem \<in> set (Members team)" "k = tm_UserId mem" by auto
    with at_member [of mem] show ?thesis by simp
  qed
  let ?ms = "map ConvertUserToTeamMember ?xs"
  have set_ms: "set ?ms = set (Members team)"
  proof
    show "set ?ms \<subseteq> set (Members team)"
      using mem_of by (auto simp: xs)
    show "set (Members team) \<subseteq> set ?ms"
    proof
      fix mem assume mem: "mem \<in> set (Members team)"
      then have "tm_UserId mem \<in> set (filter (\<lambda>k. k \<in> ?ids) ord)"
        using sub by auto
      then have "ConvertUserToTeamMember (the (users um' (tm_UserId mem))) \<in> set ?ms"
        unfolding xs by (simp add: image_iff) blast
      with at_member [OF mem] show "mem \<in> set ?ms" by simp
    qed
  qed
  have len_ms: "length ?ms = length (Members team)"
  proof -
    from ord have "distinct ord" by (simp add: key_order_def)
    then have "length (filter (\<lambda>k. k \<in> ?ids) ord) = card ({k. k \<in> ?ids} \<inter> set ord)"
      by (rule distinct_length_filter)
    also have "{k. k \<in> ?ids} \<inter> set ord = set (map tm_UserId (Members team))"
      using sub by auto
    also have "card (set (map tm_UserId (Members team))) = length (map tm_UserId (Members team))"
      using d by (rule distinct_card)
    finally show ?thesis by (simp add: xs)
  qed
  from ne len_ms have "length ?ms \<noteq> 0" by simp
  then have "GetTeam_from_cache ord um' ?name = Inr \<lparr>Members = ?ms, team_TeamName = ?name\<rparr>"
    by (simp add: GetTeam_from_cache_def Let_def)
  with set_ms len_ms show ?thesis by simp
qed

subsection \<open>Reading a team back from the database\<close>

lemma set_upsert:
  "distinct (map fst rows) \<Longrightarrow>
   set (upsert k v rows) = insert (k, v) {r \<in> set rows. fst r \<noteq> k}"
  by (induction rows) force+

lemma upsert_user_row_Inr:
  "upsert_user_row user st = Inr st' \<Longrightarrow>
   st' = st\<lparr>users_tbl := upsert (UserId user) (row_of_user user) (users_tbl st)\<rparr>"
  by (auto simp: upsert_user_row_def split: option.splits if_splits)

lemma upsert_users_Inr:
  "distinct (map fst (users_tbl st)) \<Longrightarrow> distinct (map UserId us) \<Longrightarrow>
   upsert_users us st = Inr st' \<Longrightarrow>
   teams st' = teams st \<and> pull_requests st' = pull_requests st
   \<and> pull_request_reviewers st' = pull_request_reviewers st
   \<and> distinct (map fst (users_tbl st'))
   \<and> set (users_tbl st') =
       {r \<in> set (users_tbl st). fst r \<notin> UserId ` set us}
         \<union> (\<lambda>u. (UserId u, row_of_user u)) ` set us"
proof (induction us arbitrary: st)
  case Nil
  then show ?case by simp
next
  case (Cons u us)
  from Cons.prems(3) obtain st1 where
    one: "upsert_user_row u st = Inr st1" and rest: "upsert_users us st1 = Inr st'"
    by (auto split: sum.splits)
  from upsert_user_row_Inr [OF one]
  have st1: "st1 = st\<lparr>users_tbl := upsert (UserId u) (row_of_user u) (users_tbl st)\<rparr>" .
  have d1: "distinct (map fst (users_tbl st1))"
    using Cons.prems(1) by (simp add: st1 distinct_upsert)
  from Cons.prems(2) have d2: "distinct (map UserId us)" and nu: "UserId u \<notin> UserId ` set us"
    by auto
  from Cons.IH [OF d1 d2 rest] have
    ih: "teams st' = teams st1" "pull_requests st' = pull_requests st1"
        "pull_request_reviewers st' = pull_request_reviewers st1"
        "distinct (map fst (users_tbl st'))"
        "set (users_tbl st') =
           {r \<in> set (users_tbl st1). fst r \<notin> UserId ` set us}
             \<union> (\<lambda>u. (UserId u, row_of_user u)) ` set us"
    by simp_all
  have "set (users_tbl st1) = insert (UserId u, row_of_user u)
                                {r \<in> set (users_tbl st). fst r \<noteq> UserId u}"
    using Cons.prems(1) by (simp add: st1 set_upsert)
  with ih(5) nu have "set (users_tbl st') =
       {r \<in> set (users_tbl st). fst r \<notin> UserId ` set (u # us)}
         \<union> (\<lambda>u. (UserId u, row_of_user u)) ` set (u # us)"
    by auto
  with ih st1 show ?case by simp
qed

lemma Storage_CreateTeamWithMembers_None:
  "Storage_CreateTeamWithMembers team us st = (None, st') \<Longrightarrow>
   team_TeamName team \<notin> set (teams st)
   \<and> upsert_users us (st\<lparr>teams := teams st @ [team_TeamName team]\<rparr>) = Inr st'"
  by (auto simp: Storage_CreateTeamWithMembers_def split: if_splits sum.splits)

lemma member_of_row:
  "teamName \<noteq> [] \<Longrightarrow>
   convertUserToTeamMember
     (user_of_row (UserId (ConvertTmToUser mem teamName),
                   row_of_user (ConvertTmToUser mem teamName))) = mem"
  by (simp add: convertUserToTeamMember_def user_of_row_def row_of_user_def ConvertTmToUser_def
        NULLIF_def)

lemma Storage_GetTeam_after_AddTeam:
  assumes add: "AddTeam um team st = (None, um', st')"
    and repo: "um_repo um = Some Storage_users"
    and name: "team_TeamName team \<noteq> []"
    and wf: "distinct (map fst (users_tbl st))"
    and fk: "team_fk st"
  shows "\<exists>t. GetTeam ord um' (team_TeamName team) st' = Inr t
           \<and> Storage_GetTeam (team_TeamName team) st' = Inr t
           \<and> team_TeamName t = team_TeamName team
           \<and> set (Members t) = set (Members team)
           \<and> length (Members t) = length (Members team)"
proof -
  let ?name = "team_TeamName team"
  let ?us = "map (\<lambda>m. ConvertTmToUser m ?name) (Members team)"
  let ?h = "\<lambda>u. (UserId u, row_of_user u)"
  from AddTeam_None [OF add] repo have d: "distinct (map tm_UserId (Members team))"
    and um': "um_repo um' = Some Storage_users"
    and cr: "Storage_CreateTeamWithMembers team ?us st = (None, st')"
    by (simp_all add: Storage_users_def)
  have uid: "map UserId ?us = map tm_UserId (Members team)"
    by (simp add: ConvertTmToUser_def comp_def)
  have dus: "distinct (map UserId ?us)" unfolding uid using d .
  from Storage_CreateTeamWithMembers_None [OF cr] have
    new: "?name \<notin> set (teams st)"
    and up: "upsert_users ?us (st\<lparr>teams := teams st @ [?name]\<rparr>) = Inr st'"
    by simp_all
  from upsert_users_Inr [OF _ dus up] wf have
    tm: "teams st' = teams st @ [?name]"
    and dk: "distinct (map fst (users_tbl st'))"
    and tbl: "set (users_tbl st') =
         {r \<in> set (users_tbl st). fst r \<notin> UserId ` set ?us} \<union> ?h ` set ?us"
    by simp_all
  let ?P = "\<lambda>r. col_team_name (snd r) = Some ?name"
  have in_team: "{r \<in> set (users_tbl st'). ?P r} = ?h ` set ?us"
  proof
    show "{r \<in> set (users_tbl st'). ?P r} \<subseteq> ?h ` set ?us"
    proof
      fix r assume "r \<in> {r \<in> set (users_tbl st'). ?P r}"
      then have r: "r \<in> set (users_tbl st')" "?P r" by simp_all
      show "r \<in> ?h ` set ?us"
      proof (rule ccontr)
        assume "r \<notin> ?h ` set ?us"
        with r(1) tbl have "r \<in> set (users_tbl st)" by auto
        with fk r(2) have "?name \<in> set (teams st)" by (auto simp: team_fk_def)
        with new show False by simp
      qed
    qed
    show "?h ` set ?us \<subseteq> {r \<in> set (users_tbl st'). ?P r}"
      using tbl name by (auto simp: row_of_user_def NULLIF_def ConvertTmToUser_def)
  qed
  let ?xs = "sort_key (\<lambda>r. col_username (snd r)) (filter ?P (users_tbl st'))"
  have set_xs: "set ?xs = ?h ` set ?us" using in_team by auto
  from dk have "distinct (users_tbl st')" by (rule distinct_map [THEN iffD1, THEN conjunct1])
  then have dxs: "distinct ?xs" by simp
  let ?ms = "map convertUserToTeamMember (map user_of_row ?xs)"
  have set_ms: "set ?ms = set (Members team)"
  proof -
    have "set ?ms = (\<lambda>r. convertUserToTeamMember (user_of_row r)) ` set ?xs" by auto
    also have "\<dots> = (\<lambda>mem. convertUserToTeamMember
                        (user_of_row (?h (ConvertTmToUser mem ?name)))) ` set (Members team)"
      unfolding set_xs by (auto simp: image_iff)
    also have "\<dots> = set (Members team)"
      using member_of_row [OF name] by simp
    finally show ?thesis .
  qed
  have len_ms: "length ?ms = length (Members team)"
  proof -
    have "inj_on ?h (set ?us)"
      using dus by (auto simp: inj_on_def distinct_map)
    then have "card (?h ` set ?us) = card (set ?us)" by (rule card_image)
    also from dus have "distinct ?us" by (rule distinct_map [THEN iffD1, THEN conjunct1])
    then have "card (set ?us) = length ?us" by (rule distinct_card)
    finally have "card (set ?xs) = length (Members team)" using set_xs by simp
    with distinct_card [OF dxs] show ?thesis by simp
  qed
  have get: "Storage_GetTeam ?name st' = Inr \<lparr>Members = ?ms, team_TeamName = ?name\<rparr>"
    by (simp add: Storage_GetTeam_def Storage_GetAllUsersInTeam_def tm)
  then have "GetTeam ord um' ?name st' = Inr \<lparr>Members = ?ms, team_TeamName = ?name\<rparr>"
    using um' by (simp add: GetTeam_def Storage_users_def)
  with get set_ms len_ms show ?thesis by simp
qed

text \<open>
  Claim C9 does not hold as stated, at three inputs. On the database, a team whose name is
  the empty string is created with its one member, whose \<open>team_name\<close> is stored as NULL
  (\<open>NULLIF($4, '')\<close>), and reading the team back gives no member. With no repository,
  where \<open>GetTeam\<close> rebuilds the team from the cache: a user cached earlier under the same
  team name is returned along with the one member just added; and a team added with no
  member is reported as not found.
\<close>

theorem AddTeam_GetTeam_counterexample:
  "fst (AddTeam (NewUserManager (Some Storage_users))
          \<lparr>Members = [\<lparr>tm_IsActive = True, tm_UserId = ''a'', tm_Username = ''Al''\<rparr>],
           team_TeamName = ''''\<rparr> empty_Storage) = None
   \<and> GetTeam [''a'']
        (fst (snd (AddTeam (NewUserManager (Some Storage_users))
          \<lparr>Members = [\<lparr>tm_IsActive = True, tm_UserId = ''a'', tm_Username = ''Al''\<rparr>],
           team_TeamName = ''''\<rparr> empty_Storage)))
        ''''
        (snd (snd (AddTeam (NewUserManager (Some Storage_users))
          \<lparr>Members = [\<lparr>tm_IsActive = True, tm_UserId = ''a'', tm_Username = ''Al''\<rparr>],
           team_TeamName = ''''\<rparr> empty_Storage)))
       = Inr \<lparr>Members = [], team_TeamName = ''''\<rparr>
   \<and> fst (AddTeam
          \<lparr>um_repo = None,
           users = [''x'' \<mapsto> \<lparr>IsActive = True, TeamName = ''t'', UserId = ''x'',
                                Username = ''Xi''\<rparr>]\<rparr>
          \<lparr>Members = [\<lparr>tm_IsActive = True, tm_UserId = ''a'', tm_Username = ''Al''\<rparr>],
           team_TeamName = ''t''\<rparr> empty_Storage) = None
   \<and> GetTeam [''a'', ''x'']
        (fst (snd (AddTeam
          \<lparr>um_repo = None,
           users = [''x'' \<mapsto> \<lparr>IsActive = True, TeamName = ''t'', UserId = ''x'',
                                Username = ''Xi''\<rparr>]\<rparr>
          \<lparr>Members = [\<lparr>tm_IsActive = True, tm_UserId = ''a'', tm_Username = ''Al''\<rparr>],
           team_TeamName = ''t''\<rparr> empty_Storage)))
        ''t'' empty_Storage
       = Inr \<lparr>Members = [\<lparr>tm_IsActive = True, tm_UserId = ''a'', tm_Username = ''Al''\<rparr>,
                         \<lparr>tm_IsActive = True, tm_UserId = ''x'', tm_Username = ''Xi''\<rparr>],
              team_TeamName = ''t''\<rparr>
   \<and> fst (AddTeam \<lparr>um_repo = None, users = Map.empty\<rparr>
          \<lparr>Members = [], team_TeamName = ''t''\<rparr> empty_Storage) = None
   \<and> GetTeam []
        (fst (snd (AddTeam \<lparr>um_repo = None, users = Map.empty\<rparr>
          \<lparr>Members = [], team_TeamName = ''t''\<rparr> empty_Storage)))
        ''t'' empty_Storage
       = Inl (NewNotFoundError ''team'')"
  by code_simp

text \<open>
  Claim C9, amended. After a successful \<open>AddTeam\<close> (which implies that the member ids are
  distinct and none is empty): on the database, when the team name is not empty, \<open>GetTeam\<close>
  is answered by the store and returns exactly the members of the payload; and the
  reconstruction from the cache, which answers \<open>GetTeam\<close> when no repository is
  configured, returns exactly the members of the payload when the payload has at least one
  member and no user cached before under another id carries that team name. The store
  part relies on the keys of the \<open>users\<close> table and on its foreign key to \<open>teams\<close>.
\<close>

theorem AddTeam_GetTeam_round_trip:
  assumes "AddTeam um team st = (None, um', st')"
  shows "distinct (map tm_UserId (Members team)) \<and> [] \<notin> tm_UserId ` set (Members team)
       \<and> (um_repo um = Some Storage_users \<and> team_TeamName team \<noteq> []
            \<and> distinct (map fst (users_tbl st)) \<and> team_fk st
          \<longrightarrow> (\<exists>t. GetTeam ord um' (team_TeamName team) st' = Inr t
                  \<and> Storage_GetTeam (team_TeamName team) st' = Inr t
                  \<and> team_TeamName t = team_TeamName team
                  \<and> set (Members t) = set (Members team)
                  \<and> length (Members t) = length (Members team)))
       \<and> (key_order ord (users um') \<and> Members team \<noteq> []
            \<and> (\<forall>k u. users um k = Some u \<and> TeamName u = team_TeamName team
                   \<longrightarrow> k \<in> tm_UserId ` set (Members team))
          \<longrightarrow> (\<exists>t. GetTeam_from_cache ord um' (team_TeamName team) = Inr t
                  \<and> (um_repo um = None \<longrightarrow> GetTeam ord um' (team_TeamName team) st' = Inr t)
                  \<and> team_TeamName t = team_TeamName team
                  \<and> set (Members t) = set (Members team)
                  \<and> length (Members t) = length (Members team)))"
proof (intro conjI impI)
  from AddTeam_None [OF assms]
  show "distinct (map tm_UserId (Members team))" "[] \<notin> tm_UserId ` set (Members team)"
    by simp_all
next
  assume "um_repo um = Some Storage_users \<and> team_TeamName team \<noteq> []
            \<and> distinct (map fst (users_tbl st)) \<and> team_fk st"
  then show "\<exists>t. GetTeam ord um' (team_TeamName team) st' = Inr t
                  \<and> Storage_GetTeam (team_TeamName team) st' = Inr t
                  \<and> team_TeamName t = team_TeamName team
                  \<and> set (Members t) = set (Members team)
                  \<and> length (Members t) = length (Members team)"
    using Storage_GetTeam_after_AddTeam [OF assms] by blast
next
  assume h: "key_order ord (users um') \<and> Members team \<noteq> []
            \<and> (\<forall>k u. users um k = Some u \<and> TeamName u = team_TeamName team
                   \<longrightarrow> k \<in> tm_UserId ` set (Members team))"
  then obtain t where
    t: "GetTeam_from_cache ord um' (team_TeamName team) = Inr t"
       "team_TeamName t = team_TeamName team" "set (Members t) = set (Members team)"
       "length (Members t) = length (Members team)"
    using GetTeam_from_cache_after_AddTeam [OF assms, of ord] by blast
  from AddTeam_None [OF assms] have "um_repo um' = um_repo um" by simp
  with t(1) have "um_repo um = None \<longrightarrow> GetTeam ord um' (team_TeamName team) st' = Inr t"
    by (simp add: GetTeam_def)
  with t show "\<exists>t. GetTeam_from_cache ord um' (team_TeamName team) = Inr t
                  \<and> (um_repo um = None \<longrightarrow> GetTeam ord um' (team_TeamName team) st' = Inr t)
                  \<and> team_TeamName t = team_TeamName team
                  \<and> set (Members t) = set (Members team)
                  \<and> length (Members t) = length (Members team)"
    by (intro exI [of _ t]) simp
qed

theorem AddTeam_GetTeam_round_trip_witness:
  "fst (AddTeam ex_um
          \<lparr>Members = [\<lparr>tm_IsActive = True, tm_UserId = ''a'', tm_Username = ''Al''\<rparr>,
                      \<lparr>tm_IsActive = False, tm_UserId = ''b'', tm_Username = ''Bo''\<rparr>],
           team_TeamName = ''qa''\<rparr> ex_store) = None
   \<and> (\<exists>t. GetTeam ex_ord
              (fst (snd (AddTeam ex_um
                 \<lparr>Members = [\<lparr>tm_IsActive = True, tm_UserId = ''a'', tm_Username = ''Al''\<rparr>,
                             \<lparr>tm_IsActive = False, tm_UserId = ''b'', tm_Username = ''Bo''\<rparr>],
                  team_TeamName = ''qa''\<rparr> ex_store)))
              ''qa''
              (snd (snd (AddTeam ex_um
                 \<lparr>Members = [\<lparr>tm_IsActive = True, tm_UserId = ''a'', tm_Username = ''Al''\<rparr>,
                             \<lparr>tm_IsActive = False, tm_UserId = ''b'', tm_Username = ''Bo''\<rparr>],
                  team_TeamName = ''qa''\<rparr> ex_store))) = Inr t
          \<and> set (Members t) = {\<lparr>tm_IsActive = True, tm_UserId = ''a'', tm_Username = ''Al''\<rparr>,
                                \<lparr>tm_IsActive = False, tm_UserId = ''b'', tm_Username = ''Bo''\<rparr>}
          \<and> length (Members t) = 2)
   \<and> (\<exists>t. GetTeam [''b'', ''u1'', ''a'', ''u2'', ''u4'']
              (fst (snd (AddTeam \<lparr>um_repo = None, users = ex_cache\<rparr>
                 \<lparr>Members = [\<lparr>tm_IsActive = True, tm_UserId = ''a'', tm_Username = ''Al''\<rparr>,
                             \<lparr>tm_IsActive = False, tm_UserId = ''b'', tm_Username = ''Bo''\<rparr>],
                  team_TeamName = ''qa''\<rparr> ex_store)))
              ''qa'' ex_store = Inr t
          \<and> set (Members t) = {\<lparr>tm_IsActive = True, tm_UserId = ''a'', tm_Username = ''Al''\<rparr>,
                                \<lparr>tm_IsActive = False, tm_UserId = ''b'', tm_Username = ''Bo''\<rparr>}
          \<and> length (Members t) = 2)"
proof -
  let ?team = "\<lparr>Members = [\<lparr>tm_IsActive = True, tm_UserId = ''a'', tm_Username = ''Al''\<rparr>,
                      \<lparr>tm_IsActive = False, tm_UserId = ''b'', tm_Username = ''Bo''\<rparr>],
           team_TeamName = ''qa''\<rparr>"
  let ?run = "AddTeam ex_um ?team ex_store"
  let ?dir = "\<lparr>um_repo = None, users = ex_cache\<rparr> :: Storage UserManager"
  let ?run2 = "AddTeam ?dir ?team ex_store"
  have a: "fst ?run = None" by code_simp
  then have h: "?run = (None, fst (snd ?run), snd (snd ?run))"
    by (metis prod.collapse)
  have p1: "um_repo ex_um = Some Storage_users" by (simp add: ex_um_def)
  have p2: "team_TeamName ?team \<noteq> []" by simp
  have p3: "distinct (map fst (users_tbl ex_store))" by (simp add: ex_store_def)
  have p4: "team_fk ex_store" by (simp add: team_fk_def ex_store_def)
  from AddTeam_GetTeam_round_trip [OF h, of ex_ord] p1 p2 p3 p4
  obtain t where
    t: "GetTeam ex_ord (fst (snd ?run)) (team_TeamName ?team) (snd (snd ?run)) = Inr t"
       "set (Members t) = set (Members ?team)" "length (Members t) = length (Members ?team)"
    by blast
  then have b: "\<exists>t. GetTeam ex_ord (fst (snd ?run)) ''qa'' (snd (snd ?run)) = Inr t
          \<and> set (Members t) = {\<lparr>tm_IsActive = True, tm_UserId = ''a'', tm_Username = ''Al''\<rparr>,
                                \<lparr>tm_IsActive = False, tm_UserId = ''b'', tm_Username = ''Bo''\<rparr>}
          \<and> length (Members t) = 2"
    by (intro exI [of _ t]) simp
  have run2: "?run2 =
     (None,
      ?dir\<lparr>users := ex_cache
         (''a'' \<mapsto> \<lparr>IsActive = True, TeamName = ''qa'', UserId = ''a'', Username = ''Al''\<rparr>,
          ''b'' \<mapsto> \<lparr>IsActive = False, TeamName = ''qa'', UserId = ''b'', Username = ''Bo''\<rparr>)\<rparr>,
      ex_store)"
    by (simp add: AddTeam_def ConvertTmToUser_def)
  have q1: "key_order [''b'', ''u1'', ''a'', ''u2'', ''u4''] (users (fst (snd ?run2)))"
    unfolding run2 by (auto simp: key_order_def ex_cache_def)
  have q2: "Members ?team \<noteq> []" by simp
  have q3: "\<forall>k u. users ?dir k = Some u \<and> TeamName u = team_TeamName ?team
                   \<longrightarrow> k \<in> tm_UserId ` set (Members ?team)"
    by (auto simp: ex_cache_def split: if_splits)
  have q4: "um_repo ?dir = None" by simp
  have h2: "?run2 = (None, fst (snd ?run2), ex_store)"
    unfolding run2 by simp
  from AddTeam_GetTeam_round_trip [OF h2, of "[''b'', ''u1'', ''a'', ''u2'', ''u4'']"] q1 q2 q3 q4
  obtain t2 where
    t2: "GetTeam [''b'', ''u1'', ''a'', ''u2'', ''u4''] (fst (snd ?run2)) (team_TeamName ?team)
           ex_store = Inr t2"
       "set (Members t2) = set (Members ?team)" "length (Members t2) = length (Members ?team)"
    by blast
  then have c: "\<exists>t. GetTeam [''b'', ''u1'', ''a'', ''u2'', ''u4''] (fst (snd ?run2)) ''qa''
                      ex_store = Inr t
          \<and> set (Members t) = {\<lparr>tm_IsActive = True, tm_UserId = ''a'', tm_Username = ''Al''\<rparr>,
                                \<lparr>tm_IsActive = False, tm_UserId = ''b'', tm_Username = ''Bo''\<rparr>}
          \<and> length (Members t) = 2"
    by (intro exI [of _ t2]) simp
  show ?thesis by (intro conjI a b c)
qed

section \<open>Claim on the number of reviewers\<close>

subsection \<open>Reviewer rows\<close>

lemma at_most_two_all: "at_most_two st \<longleftrightarrow> (\<forall>p. length (reviewers_of st p) \<le> 2)"
proof
  assume a: "at_most_two st"
  show "\<forall>p. length (reviewers_of st p) \<le> 2"
  proof
    fix p
    show "length (reviewers_of st p) \<le> 2"
    proof (cases "reviewers_of st p = []")
      case True
      then show ?thesis by simp
    next
      case False
      then obtain r where "r \<in> set (pull_request_reviewers st)" "fst r = p"
        by (auto simp: reviewers_of_def filter_empty_conv)
      with a show ?thesis by (auto simp: at_most_two_def)
    qed
  qed
next
  assume "\<forall>p. length (reviewers_of st p) \<le> 2"
  then show "at_most_two st" by (simp add: at_most_two_def)
qed

lemma distinct_reviewers_of:
  "distinct (pull_request_reviewers st) \<Longrightarrow> distinct (reviewers_of st p)"
  unfolding reviewers_of_def
  by (rule distinct_map [THEN iffD2]) (auto simp: inj_on_def)


lemma filter_fst_filter_neq:
  "filter (\<lambda>r. fst r \<noteq> q \<and> fst r = p) rows
     = (if p = q then [] else filter (\<lambda>r. fst r = p) rows)"
  by (induction rows) auto

lemma filter_fst_map_Pair:
  "filter (\<lambda>r. fst r = p) (map (Pair q) new) = (if p = q then map (Pair q) new else [])"
  by (induction new) auto

lemma Storage_SavePullRequest_inv:
  assumes "store_wf st" and "at_most_two st" and "Storage_SavePullRequest pr st = (None, st')"
  shows "store_wf st' \<and> at_most_two st' \<and> length (AssignedReviewers pr) \<le> 2"
proof -
  let ?id = "PullRequestId pr"
  from Storage_SavePullRequest_None [OF assms(3)] obtain new where
    len: "length (AssignedReviewers pr) \<le> 2" and d: "distinct new"
    and n: "length new \<le> length (AssignedReviewers pr)"
    and users: "users_tbl st' = users_tbl st"
    and prs: "pull_requests st' = upsert ?id
                          \<lparr>col_pull_request_name = PullRequestName pr,
                           col_author_id = AuthorId pr, col_status = Status pr,
                           col_created_at = CreatedAt pr, col_merged_at = MergedAt pr\<rparr>
                          (pull_requests st)"
    and rows: "pull_request_reviewers st' =
                 filter (\<lambda>r. fst r \<noteq> ?id) (pull_request_reviewers st) @ map (Pair ?id) new"
    by auto
  have "distinct (map (Pair ?id) new)"
    using d by (simp add: distinct_map inj_on_def)
  with assms(1) have wf: "store_wf st'"
    by (auto simp: store_wf_def users prs rows distinct_upsert)
  have rev: "reviewers_of st' p = (if p = ?id then new else reviewers_of st p)" for p
    by (simp add: reviewers_of_def rows filter_fst_filter_neq filter_fst_map_Pair comp_def)
  from assms(2) len n have "\<forall>p. length (reviewers_of st' p) \<le> 2"
    by (simp add: rev at_most_two_all)
  with wf len show ?thesis by (simp add: at_most_two_all)
qed

subsection \<open>Initial assignment\<close>




subsection \<open>The planner draws fresh reviewers\<close>

lemma plan_reviewers_fresh:
  "pool_wf pool \<Longrightarrow>
   plan_reviewers prId rs T pool assigned (sw, ids, reps) = Inr (pool', sw', ids', reps') \<Longrightarrow>
   pool_wf pool' \<and>
   (\<exists>new. sw' = sw @ new
        \<and> (\<forall>x \<in> set new. sw_PullRequestId x = prId)
        \<and> map sw_OldUserId new = filter (\<lambda>r. r \<in> T) rs
        \<and> distinct (map sw_NewUserId new)
        \<and> set (map sw_NewUserId new) \<inter> assigned = {})"
proof (induction rs arbitrary: pool assigned sw ids reps)
  case Nil
  then show ?case by simp
next
  case (Cons r rs)
  show ?case
  proof (cases "r \<in> T")
    case False
    with Cons.prems(2)
    have "plan_reviewers prId rs T pool assigned (sw, ids, reps) = Inr (pool', sw', ids', reps')"
      by simp
    from Cons.IH [OF Cons.prems(1) this] False show ?thesis by simp
  next
    case True
    obtain n ok pool1 where tk: "reviewerPool_take pool assigned = ((n, ok), pool1)"
      by (metis surj_pair)
    with Cons.prems(2) True have ok: ok by (auto split: if_splits)
    from reviewerPool_take_wf [OF Cons.prems(1) tk] ok
    have wf1: "pool_wf pool1" and fresh: "n \<notin> assigned" by simp_all
    let ?s = "\<lparr>sw_PullRequestId = prId, sw_OldUserId = r, sw_NewUserId = n\<rparr>"
    from Cons.prems(2) True tk ok
    have "plan_reviewers prId rs T pool1 (insert n assigned)
            (sw @ [?s], ids @ [n], reps @ [\<lparr>rr_OldUserId = r, rr_NewUserId = n\<rparr>])
          = Inr (pool', sw', ids', reps')"
      by simp
    from Cons.IH [OF wf1 this] obtain new where
      wf': "pool_wf pool'" and
      new: "sw' = (sw @ [?s]) @ new" "\<forall>x \<in> set new. sw_PullRequestId x = prId"
           "map sw_OldUserId new = filter (\<lambda>r. r \<in> T) rs"
           "distinct (map sw_NewUserId new)"
           "set (map sw_NewUserId new) \<inter> insert n assigned = {}"
      by blast
    have "\<exists>new. sw' = sw @ new
        \<and> (\<forall>x \<in> set new. sw_PullRequestId x = prId)
        \<and> map sw_OldUserId new = filter (\<lambda>r. r \<in> T) (r # rs)
        \<and> distinct (map sw_NewUserId new)
        \<and> set (map sw_NewUserId new) \<inter> assigned = {}"
      using new True fresh by (intro exI [of _ "?s # new"]) auto
    with wf' show ?thesis by blast
  qed
qed

subsection \<open>Applying swaps to the reviewer rows\<close>

lemma applyReviewerSwapsTx_append:
  "applyReviewerSwapsTx (xs @ ys) st =
     (case applyReviewerSwapsTx xs st of Inl err \<Rightarrow> Inl err
      | Inr st1 \<Rightarrow> applyReviewerSwapsTx ys st1)"
  by (induction xs arbitrary: st) (auto simp: Let_def split: sum.splits)

lemma length_filter_remove_one:
  assumes "distinct rows" and "x \<in> set rows" and "P x"
  shows "Suc (length (filter (\<lambda>r. r \<noteq> x \<and> P r) rows)) = length (filter P rows)"
  using assms
proof (induction rows)
  case Nil
  then show ?case by simp
next
  case (Cons a rows)
  show ?case
  proof (cases "a = x")
    case True
    with Cons.prems have "x \<notin> set rows" by simp
    then have "filter (\<lambda>r. r \<noteq> x \<and> P r) rows = filter P rows"
      by (intro filter_cong) auto
    with True Cons.prems show ?thesis by simp
  next
    case False
    with Cons show ?thesis by auto
  qed
qed

lemma applyReviewerSwapsTx_step:
  assumes "applyReviewerSwapsTx (x # rest) st = Inr st'"
  shows "\<exists>st1. st1 = st\<lparr>pull_request_reviewers :=
                  filter (\<lambda>r. r \<noteq> (sw_PullRequestId x, sw_OldUserId x)) (pull_request_reviewers st)
                    @ [(sw_PullRequestId x, sw_NewUserId x)]\<rparr>
          \<and> (sw_PullRequestId x, sw_NewUserId x)
               \<notin> set (filter (\<lambda>r. r \<noteq> (sw_PullRequestId x, sw_OldUserId x))
                         (pull_request_reviewers st))
          \<and> applyReviewerSwapsTx rest st1 = Inr st'"
proof -
  let ?st0 = "st\<lparr>pull_request_reviewers :=
                  filter (\<lambda>r. r \<noteq> (sw_PullRequestId x, sw_OldUserId x)) (pull_request_reviewers st)\<rparr>"
  from assms obtain st1 where
    ins: "insert_reviewer_row (sw_PullRequestId x, sw_NewUserId x) ?st0 = Inr st1"
    and rest: "applyReviewerSwapsTx rest st1 = Inr st'"
    by (auto simp: Let_def split: if_splits sum.splits)
  from insert_reviewer_row_Inr [OF ins] rest show ?thesis by auto
qed

lemma apply_swaps_one_pr:
  assumes "distinct (pull_request_reviewers st)"
    and "\<forall>x \<in> set new. sw_PullRequestId x = p"
    and "distinct (map sw_OldUserId new)"
    and "set (map sw_OldUserId new) \<subseteq> set (reviewers_of st p)"
    and "distinct (map sw_NewUserId new)"
    and "set (map sw_NewUserId new) \<inter> set (reviewers_of st p) = {}"
    and "applyReviewerSwapsTx new st = Inr st'"
  shows "distinct (pull_request_reviewers st')
       \<and> (\<forall>q. q \<noteq> p \<longrightarrow> reviewers_of st' q = reviewers_of st q)
       \<and> length (reviewers_of st' p) = length (reviewers_of st p)
       \<and> users_tbl st' = users_tbl st \<and> pull_requests st' = pull_requests st
       \<and> teams st' = teams st"
  using assms
proof (induction new arbitrary: st)
  case Nil
  then show ?case by simp
next
  case (Cons x new)
  let ?o = "(p, sw_OldUserId x)" and ?n = "(p, sw_NewUserId x)"
  from Cons.prems(2) have px: "sw_PullRequestId x = p" by simp
  from applyReviewerSwapsTx_step [OF Cons.prems(7)] px obtain st1 where
    st1: "st1 = st\<lparr>pull_request_reviewers :=
                  filter (\<lambda>r. r \<noteq> ?o) (pull_request_reviewers st) @ [?n]\<rparr>"
    and fresh: "?n \<notin> set (filter (\<lambda>r. r \<noteq> ?o) (pull_request_reviewers st))"
    and rest: "applyReviewerSwapsTx new st1 = Inr st'"
    by auto
  from Cons.prems(4) have old_in: "?o \<in> set (pull_request_reviewers st)"
    by (auto simp: reviewers_of_def)
  have d1: "distinct (pull_request_reviewers st1)"
    using Cons.prems(1) fresh by (simp add: st1)
  have rev_p: "reviewers_of st1 p =
      map snd (filter (\<lambda>r. r \<noteq> ?o \<and> fst r = p) (pull_request_reviewers st)) @ [sw_NewUserId x]"
    by (simp add: reviewers_of_def st1)
  have set_p: "set (reviewers_of st1 p)
      = insert (sw_NewUserId x) (set (reviewers_of st p) - {sw_OldUserId x})"
    unfolding rev_p by (auto simp: reviewers_of_def)
  have len_p: "length (reviewers_of st1 p) = length (reviewers_of st p)"
    using length_filter_remove_one [OF Cons.prems(1) old_in, of "\<lambda>r. fst r = p"]
    unfolding rev_p by (simp add: reviewers_of_def)
  have rev_q: "reviewers_of st1 q = reviewers_of st q" if "q \<noteq> p" for q
  proof -
    have "filter (\<lambda>r. r \<noteq> ?o \<and> fst r = q) (pull_request_reviewers st)
          = filter (\<lambda>r. fst r = q) (pull_request_reviewers st)"
      using that by (intro filter_cong) auto
    with that show ?thesis by (simp add: reviewers_of_def st1)
  qed
  from Cons.prems(3) have o_x: "sw_OldUserId x \<notin> set (map sw_OldUserId new)" by simp
  from Cons.prems(4) have o_sub: "set (map sw_OldUserId new) \<subseteq> set (reviewers_of st p)"
    by simp
  from Cons.prems(5) have n_x: "sw_NewUserId x \<notin> set (map sw_NewUserId new)" by simp
  from Cons.prems(6) have n_dis: "set (map sw_NewUserId new) \<inter> set (reviewers_of st p) = {}"
    by simp
  have olds: "set (map sw_OldUserId new) \<subseteq> set (reviewers_of st1 p)"
    using o_x o_sub unfolding set_p by blast
  have news: "set (map sw_NewUserId new) \<inter> set (reviewers_of st1 p) = {}"
    using n_x n_dis unfolding set_p by blast
  from Cons.prems(2,3,5) have
    "\<forall>x \<in> set new. sw_PullRequestId x = p" "distinct (map sw_OldUserId new)"
    "distinct (map sw_NewUserId new)"
    by simp_all
  from Cons.IH [OF d1 this(1,2) olds this(3) news rest]
  have ih: "distinct (pull_request_reviewers st')"
    "\<forall>q. q \<noteq> p \<longrightarrow> reviewers_of st' q = reviewers_of st1 q"
    "length (reviewers_of st' p) = length (reviewers_of st1 p)"
    "users_tbl st' = users_tbl st1" "pull_requests st' = pull_requests st1"
    "teams st' = teams st1"
    by simp_all
  have t: "users_tbl st1 = users_tbl st" "pull_requests st1 = pull_requests st"
    "teams st1 = teams st"
    by (simp_all add: st1)
  have "\<forall>q. q \<noteq> p \<longrightarrow> reviewers_of st' q = reviewers_of st q"
    using ih(2) rev_q by simp
  moreover have "length (reviewers_of st' p) = length (reviewers_of st p)"
    using ih(3) len_p by simp
  ultimately show ?case using ih(1,4,5,6) t by simp
qed

subsection \<open>The open pull requests the database returns\<close>

lemma PullRequestId_pr_of_row: "PullRequestId (pr_of_row st r) = fst r"
  by (cases r) (simp add: pr_of_row_def)

lemma AssignedReviewers_pr_of_row:
  "AssignedReviewers (pr_of_row st r) = sort (reviewers_of st (fst r))"
  by (cases r) (simp add: pr_of_row_def)

lemma distinct_map_order_by_created_at_desc:
  assumes "distinct (map f prs)"
  shows "distinct (map f (order_by_created_at_desc prs))"
proof -
  from assms have d: "distinct prs" and inj: "inj_on f (set prs)"
    by (simp_all add: distinct_map)
  have "distinct (order_by_created_at_desc prs)"
    using d by (auto simp: order_by_created_at_desc_def)
  moreover have "set (order_by_created_at_desc prs) = set prs"
    by (auto simp: order_by_created_at_desc_def)
  ultimately show ?thesis using inj by (simp add: distinct_map)
qed

lemma set_order_by_created_at_desc: "set (order_by_created_at_desc prs) = set prs"
  by (auto simp: order_by_created_at_desc_def)

lemma Storage_FindOpen_ok:
  assumes "store_wf st" and "Storage_FindOpenPullRequestsByReviewers ids st = Inr prs"
  shows "distinct (map PullRequestId prs)
       \<and> (\<forall>pr \<in> set prs. distinct (AssignedReviewers pr)
             \<and> set (AssignedReviewers pr) = set (reviewers_of st (PullRequestId pr)))"
proof -
  let ?unique = "set (filter (\<lambda>uid. uid \<noteq> []) ids)"
  let ?rows = "filter (\<lambda>r. col_status (snd r) = ''OPEN''
                      \<and> set (reviewers_of st (fst r)) \<inter> ?unique \<noteq> {}) (pull_requests st)"
  let ?all = "map (pr_of_row st) ?rows"
  from assms(2) consider "prs = []" | "prs = order_by_created_at_desc ?all"
    by (auto simp: Storage_FindOpenPullRequestsByReviewers_def Let_def split: if_splits)
  then show ?thesis
  proof cases
    case 1
    then show ?thesis by simp
  next
    case 2
    have "PullRequestId \<circ> pr_of_row st = fst"
      by (rule ext) (simp add: PullRequestId_pr_of_row)
    then have "map PullRequestId ?all = map fst ?rows"
      by (simp only: map_map)
    moreover from assms(1) have "distinct (map fst ?rows)"
      unfolding store_wf_def by (intro distinct_map_filter) simp
    ultimately have "distinct (map PullRequestId ?all)" by (simp only:)
    then have d: "distinct (map PullRequestId prs)"
      unfolding 2 by (rule distinct_map_order_by_created_at_desc)
    have "distinct (AssignedReviewers pr)
          \<and> set (AssignedReviewers pr) = set (reviewers_of st (PullRequestId pr))"
      if "pr \<in> set prs" for pr
    proof -
      from that obtain r where "pr = pr_of_row st r"
        unfolding 2 set_order_by_created_at_desc by auto
      moreover from assms(1) have "distinct (reviewers_of st (fst r))"
        by (simp add: store_wf_def distinct_reviewers_of)
      ultimately show ?thesis
        by (simp add: PullRequestId_pr_of_row AssignedReviewers_pr_of_row)
    qed
    with d show ?thesis by blast
  qed
qed

subsection \<open>A planned batch of swaps keeps every reviewer count\<close>

lemma applyReviewerSwapsTx_append_Inr:
  assumes "applyReviewerSwapsTx (xs @ ys) st = Inr st'"
  shows "\<exists>st1. applyReviewerSwapsTx xs st = Inr st1 \<and> applyReviewerSwapsTx ys st1 = Inr st'"
  using assms by (auto simp: applyReviewerSwapsTx_append split: sum.splits)

lemma plan_prs_apply:
  assumes "pool_wf pool"
    and "distinct (map PullRequestId prs)"
    and "\<forall>pr \<in> set prs. distinct (AssignedReviewers pr)
           \<and> set (AssignedReviewers pr) = set (reviewers_of st (PullRequestId pr))"
    and "distinct (pull_request_reviewers st)"
    and "plan_prs prs T pool (sw, ras, ids) = Inr (sw', ras', ids')"
  shows "\<exists>new. sw' = sw @ new
       \<and> (\<forall>st'. applyReviewerSwapsTx new st = Inr st' \<longrightarrow>
             distinct (pull_request_reviewers st')
           \<and> (\<forall>q. length (reviewers_of st' q) = length (reviewers_of st q))
           \<and> (\<forall>q. q \<notin> PullRequestId ` set prs \<longrightarrow> reviewers_of st' q = reviewers_of st q)
           \<and> users_tbl st' = users_tbl st \<and> pull_requests st' = pull_requests st
           \<and> teams st' = teams st)"
  using assms
proof (induction prs arbitrary: pool sw ras ids st)
  case Nil
  then show ?case by simp
next
  case (Cons pr prs)
  let ?p = "PullRequestId pr"
  from Cons.prems(5) obtain pool1 sw1 ids1 reps where
    inner: "plan_reviewers ?p (AssignedReviewers pr) T pool (set (AssignedReviewers pr))
              (sw, ids, []) = Inr (pool1, sw1, ids1, reps)"
    and rest: "plan_prs prs T pool1
                 (sw1, if length reps > 0
                       then ras @ [\<lparr>ra_PullRequestId = ?p, Replacements = reps\<rparr>] else ras,
                  ids1) = Inr (sw', ras', ids')"
    by (auto split: sum.splits)
  from Cons.prems(3) have rs: "set (AssignedReviewers pr) = set (reviewers_of st ?p)"
    and drs: "distinct (AssignedReviewers pr)"
    by simp_all
  from Cons.prems(2) have fresh_p: "?p \<notin> PullRequestId ` set prs"
    and dprs: "distinct (map PullRequestId prs)"
    by simp_all
  from plan_reviewers_fresh [OF Cons.prems(1) inner] obtain new1 where
    wf1: "pool_wf pool1" and sw1: "sw1 = sw @ new1"
    and ids1: "\<forall>x \<in> set new1. sw_PullRequestId x = ?p"
    and olds: "map sw_OldUserId new1 = filter (\<lambda>r. r \<in> T) (AssignedReviewers pr)"
    and news: "distinct (map sw_NewUserId new1)"
              "set (map sw_NewUserId new1) \<inter> set (AssignedReviewers pr) = {}"
    by blast
  have step: "distinct (pull_request_reviewers st1)
       \<and> (\<forall>q. q \<noteq> ?p \<longrightarrow> reviewers_of st1 q = reviewers_of st q)
       \<and> length (reviewers_of st1 ?p) = length (reviewers_of st ?p)
       \<and> users_tbl st1 = users_tbl st \<and> pull_requests st1 = pull_requests st
       \<and> teams st1 = teams st"
    if a1: "applyReviewerSwapsTx new1 st = Inr st1" for st1
  proof -
    have "set (filter (\<lambda>r. r \<in> T) (AssignedReviewers pr)) \<subseteq> set (reviewers_of st ?p)"
      using rs by auto
    then have o2: "set (map sw_OldUserId new1) \<subseteq> set (reviewers_of st ?p)"
      unfolding olds .
    from drs have o1: "distinct (map sw_OldUserId new1)"
      unfolding olds by simp
    from news(2) rs have "set (map sw_NewUserId new1) \<inter> set (reviewers_of st ?p) = {}"
      by simp
    from apply_swaps_one_pr [OF Cons.prems(4) ids1 o1 o2 news(1) this a1]
    show ?thesis .
  qed
  have tail: "\<exists>new2. sw' = sw1 @ new2
       \<and> (\<forall>st'. applyReviewerSwapsTx new2 st1 = Inr st' \<longrightarrow>
             distinct (pull_request_reviewers st')
           \<and> (\<forall>q. length (reviewers_of st' q) = length (reviewers_of st1 q))
           \<and> (\<forall>q. q \<notin> PullRequestId ` set prs \<longrightarrow> reviewers_of st' q = reviewers_of st1 q)
           \<and> users_tbl st' = users_tbl st1 \<and> pull_requests st' = pull_requests st1
           \<and> teams st' = teams st1)"
    if a1: "applyReviewerSwapsTx new1 st = Inr st1" for st1
  proof -
    note s = step [OF a1]
    have "\<forall>pr' \<in> set prs. distinct (AssignedReviewers pr')
           \<and> set (AssignedReviewers pr') = set (reviewers_of st1 (PullRequestId pr'))"
    proof
      fix pr' assume in': "pr' \<in> set prs"
      with fresh_p have "PullRequestId pr' \<noteq> ?p" by (metis imageI)
      with s have "reviewers_of st1 (PullRequestId pr') = reviewers_of st (PullRequestId pr')"
        by blast
      with Cons.prems(3) in' show "distinct (AssignedReviewers pr')
           \<and> set (AssignedReviewers pr') = set (reviewers_of st1 (PullRequestId pr'))"
        by simp
    qed
    moreover from s have "distinct (pull_request_reviewers st1)" by blast
    ultimately show ?thesis
      using Cons.IH [OF wf1 dprs _ _ rest, of st1] by blast
  qed
  show ?case
  proof (cases "\<exists>st1. applyReviewerSwapsTx new1 st = Inr st1")
    case False
    from plan_prs_Inr [OF rest] obtain new2 where n2: "sw' = sw1 @ new2" by blast
    have "\<forall>st'. applyReviewerSwapsTx (new1 @ new2) st \<noteq> Inr st'"
      using False by (auto dest: applyReviewerSwapsTx_append_Inr)
    moreover have "sw' = sw @ (new1 @ new2)" using n2 sw1 by simp
    ultimately show ?thesis by (intro exI [of _ "new1 @ new2"]) blast
  next
    case True
    then obtain st1 where a1: "applyReviewerSwapsTx new1 st = Inr st1" by blast
    from tail [OF a1] obtain new2 where n2: "sw' = sw1 @ new2"
      and t: "\<forall>st'. applyReviewerSwapsTx new2 st1 = Inr st' \<longrightarrow>
             distinct (pull_request_reviewers st')
           \<and> (\<forall>q. length (reviewers_of st' q) = length (reviewers_of st1 q))
           \<and> (\<forall>q. q \<notin> PullRequestId ` set prs \<longrightarrow> reviewers_of st' q = reviewers_of st1 q)
           \<and> users_tbl st' = users_tbl st1 \<and> pull_requests st' = pull_requests st1
           \<and> teams st' = teams st1"
      by blast
    note s = step [OF a1]
    have len1: "length (reviewers_of st1 q) = length (reviewers_of st q)" for q
      using s by (cases "q = ?p") auto
    have "distinct (pull_request_reviewers st')
           \<and> (\<forall>q. length (reviewers_of st' q) = length (reviewers_of st q))
           \<and> (\<forall>q. q \<notin> PullRequestId ` set (pr # prs) \<longrightarrow> reviewers_of st' q = reviewers_of st q)
           \<and> users_tbl st' = users_tbl st \<and> pull_requests st' = pull_requests st
           \<and> teams st' = teams st"
      if a: "applyReviewerSwapsTx (new1 @ new2) st = Inr st'" for st'
    proof -
      from applyReviewerSwapsTx_append_Inr [OF a] a1
      have a2: "applyReviewerSwapsTx new2 st1 = Inr st'" by auto
      with t have t': "distinct (pull_request_reviewers st')"
           "\<forall>q. length (reviewers_of st' q) = length (reviewers_of st1 q)"
           "\<forall>q. q \<notin> PullRequestId ` set prs \<longrightarrow> reviewers_of st' q = reviewers_of st1 q"
           "users_tbl st' = users_tbl st1" "pull_requests st' = pull_requests st1"
           "teams st' = teams st1"
        by blast+
      from t'(3) s have "\<forall>q. q \<notin> PullRequestId ` set (pr # prs) \<longrightarrow>
                            reviewers_of st' q = reviewers_of st q"
        by auto
      with t' len1 s show ?thesis by simp
    qed
    then have "\<forall>st'. applyReviewerSwapsTx (new1 @ new2) st = Inr st' \<longrightarrow>
             distinct (pull_request_reviewers st')
           \<and> (\<forall>q. length (reviewers_of st' q) = length (reviewers_of st q))
           \<and> (\<forall>q. q \<notin> PullRequestId ` set (pr # prs) \<longrightarrow> reviewers_of st' q = reviewers_of st q)
           \<and> users_tbl st' = users_tbl st \<and> pull_requests st' = pull_requests st
           \<and> teams st' = teams st"
      by blast
    moreover have "sw' = sw @ (new1 @ new2)" using n2 sw1 by simp
    ultimately show ?thesis by (intro exI [of _ "new1 @ new2"] conjI)
  qed
qed

subsection \<open>The bulk transaction keeps the invariants\<close>

lemma deactivateUsersTx_tables:
  assumes "deactivateUsersTx us st = Inr st'"
  shows "map fst (users_tbl st') = map fst (users_tbl st)
       \<and> pull_requests st' = pull_requests st
       \<and> pull_request_reviewers st' = pull_request_reviewers st"
proof -
  have "map fst (map (\<lambda>r. if fst r \<in> S then (fst r, f r) else r) rows) = map fst rows"
    for S :: "string set" and f :: "string \<times> user_row \<Rightarrow> user_row" and rows
    by (induction rows) auto
  with assms show ?thesis
    by (auto simp: deactivateUsersTx_def Let_def split: if_splits)
qed

lemma Storage_ApplyBulk_inv:
  assumes "store_wf st" and "at_most_two st"
    and "Storage_FindOpenPullRequestsByReviewers targets st = Inr openPRs"
    and "plan_prs openPRs T (newReviewerPool cands) ([], [], []) = Inr (swaps, ras, ids)"
    and "Storage_ApplyBulkTeamReviewerSwaps swaps us st = (None, st')"
  shows "store_wf st' \<and> at_most_two st'"
proof -
  from Storage_FindOpen_ok [OF assms(1,3)] have
    prs: "distinct (map PullRequestId openPRs)"
         "\<forall>pr \<in> set openPRs. distinct (AssignedReviewers pr)
             \<and> set (AssignedReviewers pr) = set (reviewers_of st (PullRequestId pr))"
    by blast+
  from assms(1) have d: "distinct (pull_request_reviewers st)"
    by (simp add: store_wf_def)
  from plan_prs_apply [OF newReviewerPool_wf prs d assms(4)]
  have app: "applyReviewerSwapsTx swaps st = Inr st1 \<Longrightarrow>
             distinct (pull_request_reviewers st1)
           \<and> (\<forall>q. length (reviewers_of st1 q) = length (reviewers_of st q))
           \<and> users_tbl st1 = users_tbl st \<and> pull_requests st1 = pull_requests st" for st1
    by auto
  have one: "store_wf st1 \<and> at_most_two st1"
    if "(if length swaps > 0 then applyReviewerSwapsTx swaps st else Inr st) = Inr st1" for st1
  proof (cases "length swaps > 0")
    case False
    with that assms(1,2) show ?thesis by simp
  next
    case True
    with that have "applyReviewerSwapsTx swaps st = Inr st1" by simp
    from app [OF this] assms(1,2) show ?thesis
      by (simp add: store_wf_def at_most_two_all)
  qed
  have two: "store_wf st2 \<and> at_most_two st2"
    if "store_wf st1 \<and> at_most_two st1"
      and "(if length us > 0 then deactivateUsersTx us st1 else Inr st1) = Inr st2" for st1 st2
  proof (cases "length us > 0")
    case False
    with that show ?thesis by simp
  next
    case True
    with that have "deactivateUsersTx us st1 = Inr st2" by simp
    from deactivateUsersTx_tables [OF this] that(1) show ?thesis
      by (simp add: store_wf_def at_most_two_all reviewers_of_def)
  qed
  show ?thesis
  proof (cases "length swaps = 0 \<and> length us = 0")
    case True
    with assms(1,2,5) show ?thesis
      by (simp add: Storage_ApplyBulkTeamReviewerSwaps_def)
  next
    case False
    with assms(5) obtain st1 where
      s1: "(if length swaps > 0 then applyReviewerSwapsTx swaps st else Inr st) = Inr st1"
      and s2: "(if length us > 0 then deactivateUsersTx us st1 else Inr st1) = Inr st'"
      by (auto simp: Storage_ApplyBulkTeamReviewerSwaps_def split: sum.splits if_splits)
    from two [OF one [OF s1] s2] show ?thesis .
  qed
qed

subsection \<open>The directory stays keyed by user id\<close>

lemma set_active_loop_cache_inv:
  "cache_inv m \<Longrightarrow> cache_inv (set_active_loop ids status m)"
proof (induction ids arbitrary: m)
  case Nil
  then show ?case by simp
next
  case (Cons el rest)
  show ?case
  proof (cases "m el")
    case None
    with Cons show ?thesis by simp
  next
    case (Some user)
    with Cons.prems have "cache_inv (m(el \<mapsto> user\<lparr>IsActive := status\<rparr>))"
      by (auto simp: cache_inv_def)
    from Cons.IH [OF this]
    have "cache_inv (set_active_loop rest status (m(el \<mapsto> user\<lparr>IsActive := status\<rparr>)))" .
    moreover from Some have "set_active_loop (el # rest) status m
        = set_active_loop rest status (m(el \<mapsto> user\<lparr>IsActive := status\<rparr>))"
      by simp
    ultimately show ?thesis by (simp only:)
  qed
qed

lemma SyncUsersActivity_cache_inv:
  "cache_inv (users um) \<Longrightarrow> cache_inv (users (SyncUsersActivity um ids status))"
  by (simp add: SyncUsersActivity_def set_active_loop_cache_inv)

lemma SetActivity_cache_inv:
  "cache_inv (users um) \<Longrightarrow> cache_inv (users (snd (SetActivity um ids status)))"
  by (simp add: SetActivity_def set_active_loop_cache_inv)

subsection \<open>The four operations\<close>

lemma prManager_repo [simp]:
  "repo_SavePullRequest (prm_repo prManager) = Storage_SavePullRequest"
  "repo_GetPullRequest (prm_repo prManager) = Storage_GetPullRequest"
  "repo_FindOpenPullRequestsByReviewers (prm_repo prManager)
     = Storage_FindOpenPullRequestsByReviewers"
  "repo_ApplyBulkTeamReviewerSwaps (prm_repo prManager) = Storage_ApplyBulkTeamReviewerSwaps"
  by (simp_all add: prManager_def Storage_prs_def)





lemma BulkDeactivate_inv:
  assumes "store_wf st" and "at_most_two st" and "cache_inv (users um)"
    and "BulkDeactivateTeamMembers ord prManager teamName userIDs (um, st) = (Inr res, um', st')"
  shows "store_wf st' \<and> at_most_two st' \<and> cache_inv (users um')"
proof -
  from BulkDeactivate_success [OF assms(4), unfolded prManager_repo]
  obtain team openPRs swaps where
    gt: "GetTeam ord um (TrimSpace teamName) st = Inr team" and
    f: "Storage_FindOpenPullRequestsByReviewers (normalized_targets userIDs) st = Inr openPRs"
    and p: "plan_prs openPRs (set (normalized_targets userIDs))
             (newReviewerPool (collectReplacementCandidates (Members team)
                                 (set (normalized_targets userIDs))))
             ([], [], []) = Inr (swaps, Reassignments res, map sw_NewUserId swaps)"
    and a: "Storage_ApplyBulkTeamReviewerSwaps swaps
             (normalized_targets userIDs @ map sw_NewUserId swaps) st = (None, st')"
    and u: "um' = SyncUsersActivity um (normalized_targets userIDs @ map sw_NewUserId swaps) False"
    by (elim exE conjE) (assumption | rule)+
  from Storage_ApplyBulk_inv [OF assms(1,2) f p a] u assms(3) show ?thesis
    by (simp add: SyncUsersActivity_cache_inv)
qed

subsection \<open>The conditions hold at start-up and the directory operations keep them\<close>

lemma invariants_initial:
  "store_wf empty_Storage \<and> at_most_two empty_Storage \<and> cache_inv (users (NewUserManager r))"
  by (simp add: store_wf_def at_most_two_def empty_Storage_def cache_inv_def NewUserManager_def)

lemma upsert_users_tables:
  "upsert_users us st = Inr st' \<Longrightarrow>
   (distinct (map fst (users_tbl st)) \<longrightarrow> distinct (map fst (users_tbl st')))
   \<and> pull_requests st' = pull_requests st
   \<and> pull_request_reviewers st' = pull_request_reviewers st"
proof (induction us arbitrary: st)
  case Nil
  then show ?case by simp
next
  case (Cons user rest)
  from Cons.prems obtain st1 where
    one: "upsert_user_row user st = Inr st1" and more: "upsert_users rest st1 = Inr st'"
    by (auto split: sum.splits)
  from upsert_user_row_Inr [OF one]
  have "st1 = st\<lparr>users_tbl := upsert (UserId user) (row_of_user user) (users_tbl st)\<rparr>" .
  with Cons.IH [OF more] show ?case by (simp add: distinct_upsert)
qed

lemma cache_users_cache_inv: "cache_inv m \<Longrightarrow> cache_inv (cache_users us m)"
proof (induction us arbitrary: m)
  case Nil
  then show ?case by simp
next
  case (Cons user rest)
  from Cons.prems have "cache_inv (m(UserId user \<mapsto> user))"
    by (auto simp: cache_inv_def)
  from Cons.IH [OF this] show ?case by (simp only: cache_users.simps)
qed

lemma AddTeam_inv:
  assumes "store_wf st" and "at_most_two st" and "cache_inv (users um)"
    and "um_repo um = Some Storage_users"
    and "AddTeam um team st = (r, um', st')"
  shows "store_wf st' \<and> at_most_two st' \<and> cache_inv (users um')"
proof (cases "AddTeam_validate (Members team) 0 {}")
  case (Some err)
  with assms show ?thesis by (simp add: AddTeam_def)
next
  case None
  let ?us = "map (\<lambda>m. ConvertTmToUser m (team_TeamName team)) (Members team)"
  obtain e s1 where c: "Storage_CreateTeamWithMembers team ?us st = (e, s1)"
    by (metis surj_pair)
  show ?thesis
  proof (cases e)
    case (Some err)
    with c have "s1 = st"
      by (auto simp: Storage_CreateTeamWithMembers_def split: if_splits sum.splits)
    with assms None c Some show ?thesis
      by (simp add: AddTeam_def Storage_users_def)
  next
    case None': None
    from Storage_CreateTeamWithMembers_None [OF c [unfolded None']]
    have "upsert_users ?us (st\<lparr>teams := teams st @ [team_TeamName team]\<rparr>) = Inr s1"
      by simp
    from upsert_users_tables [OF this] assms(1,2)
    have "store_wf s1 \<and> at_most_two s1"
      by (simp add: store_wf_def at_most_two_all reviewers_of_def)
    moreover from assms(4,5) None c None'
    have "st' = s1" "um' = um\<lparr>users := cache_users ?us (users um)\<rparr>"
      by (simp_all add: AddTeam_def Storage_users_def)
    ultimately show ?thesis
      using assms(3) by (simp add: cache_users_cache_inv)
  qed
qed

lemma SetUserActivity_inv:
  assumes "store_wf st" and "at_most_two st" and "cache_inv (users um)"
    and "um_repo um = Some Storage_users"
    and "SetUserActivity um userID isActive st = (r, um', st')"
  shows "store_wf st' \<and> at_most_two st' \<and> cache_inv (users um')"
proof (cases "users um userID")
  case None
  with assms show ?thesis by (simp add: SetUserActivity_def)
next
  case (Some user0)
  with assms(3) have uid: "UserId user0 = userID" by (simp add: cache_inv_def)
  let ?user = "user0\<lparr>IsActive := isActive\<rparr>"
  have c1: "cache_inv ((users um)(userID \<mapsto> user0\<lparr>IsActive := b\<rparr>))" for b
    using assms(3) uid by (auto simp: cache_inv_def)
  have c0: "cache_inv ((users um)(userID \<mapsto> user0))"
    using assms(3) uid by (auto simp: cache_inv_def)
  show ?thesis
  proof (cases "upsert_user_row ?user st")
    case (Inl err)
    with assms Some c0 show ?thesis
      by (auto simp: SetUserActivity_def Let_def Storage_users_def Storage_SaveUser_def)
  next
    case (Inr s1)
    from upsert_user_row_Inr [OF Inr] assms(1,2)
    have "store_wf s1 \<and> at_most_two s1"
      by (simp add: store_wf_def at_most_two_all reviewers_of_def distinct_upsert)
    with assms Some Inr c1 show ?thesis
      by (auto simp: SetUserActivity_def Let_def Storage_users_def Storage_SaveUser_def)
  qed
qed

lemma PrimeCacheUser_cache_inv:
  "cache_inv (users um) \<Longrightarrow> PrimeCacheUser um userID s = (r, um') \<Longrightarrow> cache_inv (users um')"
  by (auto simp: PrimeCacheUser_def cache_inv_def split: option.splits sum.splits if_splits)

subsection \<open>Failed operations keep the conditions too\<close>

lemma Storage_SavePullRequest_Some:
  "Storage_SavePullRequest pr st = (Some e, st') \<Longrightarrow> st' = st"
  by (auto simp: Storage_SavePullRequest_def Let_def split: if_splits sum.splits)

lemma Storage_ApplyBulk_Some:
  "Storage_ApplyBulkTeamReviewerSwaps swaps us st = (Some e, st') \<Longrightarrow> st' = st"
  by (auto simp: Storage_ApplyBulkTeamReviewerSwaps_def split: if_splits sum.splits)

lemma Storage_SavePullRequest_any:
  assumes "store_wf st" and "at_most_two st" and "Storage_SavePullRequest pr st = (e, st')"
  shows "store_wf st' \<and> at_most_two st'"
proof (cases e)
  case None
  with Storage_SavePullRequest_inv [OF assms(1,2)] assms(3) show ?thesis by simp
next
  case (Some err)
  with Storage_SavePullRequest_Some assms show ?thesis by blast
qed

lemma CreatePullRequest_any:
  assumes "store_wf st" and "at_most_two st" and "cache_inv (users um)"
    and "CreatePullRequest now ord prManager reqData (um, st) = (r, started, um', st')"
  shows "store_wf st' \<and> at_most_two st' \<and> cache_inv (users um')"
proof -
  let ?pr0 = "convertReqToModel now reqData"
  obtain g um1 where g: "GetUserTeam um (AuthorId ?pr0) st = (g, um1)"
    by (metis surj_pair)
  from GetUserTeam_cache_inv [OF assms(3) g] have c: "cache_inv (users um1)" .
  show ?thesis
  proof (cases g)
    case (Inl err)
    with assms g c show ?thesis by (simp add: CreatePullRequest_def)
  next
    case (Inr teamID)
    let ?pr = "?pr0\<lparr>AssignedReviewers := AssignRewiers ord um1 teamID\<rparr>"
    obtain e s1 where sv: "Storage_SavePullRequest ?pr st = (e, s1)"
      by (metis surj_pair)
    from assms(4) g Inr sv have "um' = um1" "st' = s1"
      by (auto simp: CreatePullRequest_def Let_def split: option.splits)
    with Storage_SavePullRequest_any [OF assms(1,2) sv] c show ?thesis by simp
  qed
qed

lemma Merge_any:
  assumes "store_wf st" and "at_most_two st"
    and "Merge now prManager prId (um, st) = (r, started, um', st')"
  shows "store_wf st' \<and> at_most_two st' \<and> um' = um"
proof (cases "Storage_GetPullRequest prId st")
  case (Inl err)
  with assms show ?thesis by (auto simp: Merge_def split: if_splits)
next
  case (Inr pr0)
  show ?thesis
  proof (cases "Status pr0 = PullRequestStatusMERGED")
    case True
    with assms Inr show ?thesis by (simp add: Merge_def)
  next
    case False
    let ?pr = "pr0\<lparr>Status := PullRequestStatusMERGED, MergedAt := Some now\<rparr>"
    obtain e s1 where sv: "Storage_SavePullRequest ?pr st = (e, s1)"
      by (metis surj_pair)
    from assms(3) Inr False sv have "um' = um" "st' = s1"
      by (auto simp: Merge_def Let_def split: option.splits)
    with Storage_SavePullRequest_any [OF assms(1,2) sv] show ?thesis by simp
  qed
qed

lemma Reassign_any:
  assumes "store_wf st" and "at_most_two st" and "cache_inv (users um)"
    and "Reassign ord prManager oldUserId prId (um, st) = (r, started, um', st')"
  shows "store_wf st' \<and> at_most_two st' \<and> cache_inv (users um')"
proof (cases "Storage_GetPullRequest prId st")
  case (Inl err)
  with assms show ?thesis by (auto simp: Reassign_def split: if_splits)
next
  case (Inr pr0)
  show ?thesis
  proof (cases "Status pr0 = PullRequestStatusMERGED \<or> oldUserId \<notin> set (AssignedReviewers pr0)")
    case True
    then consider "Status pr0 = PullRequestStatusMERGED"
      | "Status pr0 \<noteq> PullRequestStatusMERGED" "oldUserId \<notin> set (AssignedReviewers pr0)"
      by blast
    then have "um' = um \<and> st' = st"
    proof cases
      case 1
      with assms(4) Inr show ?thesis by (simp add: Reassign_def)
    next
      case 2
      with assms(4) Inr show ?thesis by (simp add: Reassign_def)
    qed
    with assms show ?thesis by simp
  next
    case False
    obtain g um1 where g: "GetUserTeam um oldUserId st = (g, um1)"
      by (metis surj_pair)
    from GetUserTeam_cache_inv [OF assms(3) g] have c: "cache_inv (users um1)" .
    show ?thesis
    proof (cases g)
      case (Inl err)
      with assms Inr False g c show ?thesis by (simp add: Reassign_def)
    next
      case g_ok: (Inr teamName)
      show ?thesis
      proof (cases "FindReplacementReviewer ord um1 teamName (AssignedReviewers pr0 @ [oldUserId])")
        case (Inl err)
        with assms Inr False g g_ok c show ?thesis
          by (auto simp: Reassign_def Let_def split: if_splits)
      next
        case f_ok: (Inr n)
        let ?pr = "pr0\<lparr>AssignedReviewers :=
                        filter (\<lambda>reviewerID. reviewerID \<noteq> oldUserId) (AssignedReviewers pr0) @ [n]\<rparr>"
        obtain e s1 where sv: "Storage_SavePullRequest ?pr st = (e, s1)"
          by (metis surj_pair)
        from assms(4) Inr False g g_ok f_ok sv have "um' = um1" "st' = s1"
          by (auto simp: Reassign_def Let_def split: option.splits)
        with Storage_SavePullRequest_any [OF assms(1,2) sv] c show ?thesis by simp
      qed
    qed
  qed
qed

lemma BulkDeactivate_Inl:
  assumes "BulkDeactivateTeamMembers ord prManager teamName userIDs (um, st) = (Inl e, um', st')"
  shows "um' = um \<and> st' = st"
  using assms
  by (auto simp: BulkDeactivateTeamMembers_def Let_def dest: Storage_ApplyBulk_Some
           split: if_splits sum.splits option.splits prod.splits)

lemma BulkDeactivate_any:
  assumes "store_wf st" and "at_most_two st" and "cache_inv (users um)"
    and "BulkDeactivateTeamMembers ord prManager teamName userIDs (um, st) = (r, um', st')"
  shows "store_wf st' \<and> at_most_two st' \<and> cache_inv (users um')"
proof (cases r)
  case (Inl e)
  with BulkDeactivate_Inl assms show ?thesis by blast
next
  case (Inr res)
  with BulkDeactivate_inv [OF assms(1,2,3)] assms(4) show ?thesis by blast
qed




end
